theory Spec2Isabelle
  imports Main "HOL-Library.Word"
begin

section \<open>The message slot driver: data model\<close>

text \<open>
  The driver keeps its objects in kernel memory and links them by pointers. An address is
  a natural number and a pointer is an optional address, \<open>None\<close> being \<open>NULL\<close>.
  The two structs of \<open>message_slot.h\<close> are records; both have a field \<open>next\<close> in C,
  named \<open>channel_next\<close> and \<open>slot_next\<close> here. \<open>char message[128]\<close> is a list of
  bytes (of length 128 in every object the driver writes), \<open>size_t\<close> and
  \<open>unsigned long\<close> are 64-bit words, \<open>unsigned int\<close> is a 32-bit word.
\<close>

type_synonym addr = nat

type_synonym ptr = "addr option"

type_synonym byte = "8 word"

record message_channel =
  channel_id :: "32 word"
  message :: "byte list"
  message_len :: "64 word"
  channel_next :: ptr

record message_slot =
  channels :: ptr
  channel_count :: "64 word"
  minor :: int
  slot_next :: ptr

text \<open>
  Kernel memory maps an address to the object allocated there. \<open>slots\<close> is the global
  head of the list of slots. \<open>private_data\<close> is the one \<open>void *\<close> of a \<open>struct file\<close>
  the driver uses: it carries no type, so it may hold the address of a slot or of a
  channel.
\<close>

datatype object = Slot message_slot | Channel message_channel

record kernel =
  heap :: "addr \<Rightarrow> object option"
  slots :: ptr

record struct_file =
  private_data :: ptr

text \<open>
  A handler either returns, or dereferences a pointer that does not point to an object
  of the struct type the code reads it as (undefined behaviour in C): the second is
  \<open>Fault\<close>. A loop over a linked list may also run forever on a cyclic list; the loops
  are partial functions into \<open>option\<close>, and \<open>None\<close> is "does not return".
\<close>

datatype 'a outcome = Fault | Ret 'a

text \<open>The error numbers of \<open>linux/errno.h\<close> the driver returns (negated).\<close>

definition EAGAIN :: int where "EAGAIN = 11"

definition EWOULDBLOCK :: int where "EWOULDBLOCK = EAGAIN"

definition ENOMEM :: int where "ENOMEM = 12"

definition EINVAL :: int where "EINVAL = 22"

definition ENOSPC :: int where "ENOSPC = 28"

definition EMSGSIZE :: int where "EMSGSIZE = 90"

text \<open>
  \<open>MSG_SLOT_CHANNEL\<close> is \<open>_IOW(MAJOR_NUM, 0, unsigned int)\<close>: direction "write" (1) in
  bits 30-31, the size of the argument (4) in bits 16-29, the major number in bits 8-15
  and the command number 0 in bits 0-7.
\<close>

definition MAJOR_NUM :: "32 word" where "MAJOR_NUM = 235"

definition MSG_SLOT_CHANNEL :: "32 word" where
  "MSG_SLOT_CHANNEL = push_bit 30 1 + push_bit 16 4 + push_bit 8 MAJOR_NUM + 0"

section \<open>The transport: copying across the user/kernel boundary\<close>

text \<open>
  A user buffer is the list of bytes that are accessible from the user pointer on; what
  lies behind its end is unmapped. \<open>copy_from_user dst src n\<close> copies \<open>n\<close> bytes to the
  front of the kernel buffer \<open>dst\<close> and returns the number of bytes it could not copy;
  the bytes it could not copy are zero in the destination. \<open>copy_to_user dst src n\<close>
  copies \<open>n\<close> bytes of the kernel buffer \<open>src\<close> to the front of the user buffer and
  returns the number of bytes it could not copy. \<open>memset\<close> of the whole message array
  gives \<open>sizeof(channel->message) = 128\<close> zero bytes.
\<close>

definition copy_from_user :: "byte list \<Rightarrow> byte list \<Rightarrow> nat \<Rightarrow> byte list \<times> nat" where
  "copy_from_user dst src n =
     (take n src @ replicate (n - length src) 0 @ drop n dst, n - length src)"

definition copy_to_user :: "byte list \<Rightarrow> byte list \<Rightarrow> nat \<Rightarrow> byte list \<times> nat" where
  "copy_to_user dst src n =
     (take (min n (length dst)) src @ drop (min n (length dst)) dst, n - length dst)"

definition memset_message :: "byte list" where
  "memset_message = replicate 128 0"

section \<open>The handlers\<close>

subsection \<open>get_or_create_channel\<close>

text \<open>
  The \<open>while\<close> loop of \<open>get_or_create_channel\<close>: it walks the \<open>next\<close> pointers from
  \<open>current_channel\<close> and gives the first channel whose id is \<open>channel_id\<close>, or \<open>NULL\<close>
  at the end of the list. (\<open>prev_channel\<close> is written and never read.)
\<close>

partial_function (option) find_channel ::
  "(addr \<Rightarrow> object option) \<Rightarrow> ptr \<Rightarrow> 32 word \<Rightarrow> ptr outcome option" where
  "find_channel h current_channel cid =
     (case current_channel of
        None \<Rightarrow> Some (Ret None)
      | Some a \<Rightarrow>
          (case h a of
             Some (Channel c) \<Rightarrow>
               if channel_id c = cid then Some (Ret (Some a))
               else find_channel h (channel_next c) cid
           | _ \<Rightarrow> Some Fault))"

text \<open>
  \<open>kmalloc\<close> belongs to the kernel: its result is the parameter \<open>km\<close>, \<open>NULL\<close> or the
  address of a block that holds no live object. It does not clear the block, so the
  message array of a new channel holds whatever was there: the parameter \<open>junk\<close>.
  The function returns the channel pointer and the kernel state.
\<close>

definition get_or_create_channel ::
  "kernel \<Rightarrow> addr \<Rightarrow> 32 word \<Rightarrow> ptr \<Rightarrow> byte list \<Rightarrow> (ptr \<times> kernel) outcome option" where
  "get_or_create_channel s slot cid km junk =
     (case heap s slot of
        Some (Slot sl) \<Rightarrow>
          (case find_channel (heap s) (channels sl) cid of
             None \<Rightarrow> None
           | Some Fault \<Rightarrow> Some Fault
           | Some (Ret (Some c)) \<Rightarrow> Some (Ret (Some c, s))
           | Some (Ret None) \<Rightarrow>
               if 2 ^ 20 \<le> channel_count sl then Some (Ret (None, s))
               else
                 (case km of
                    None \<Rightarrow> Some (Ret (None, s))
                  | Some new_channel \<Rightarrow>
                      Some (Ret (Some new_channel,
                        s\<lparr>heap := (heap s)
                            (new_channel \<mapsto> Channel \<lparr>channel_id = cid, message = junk,
                                message_len = 0, channel_next = channels sl\<rparr>,
                             slot \<mapsto> Slot (sl\<lparr>channels := Some new_channel,
                                channel_count := channel_count sl + 1\<rparr>))\<rparr>))))
      | _ \<Rightarrow> Some Fault)"

subsection \<open>device_open\<close>

text \<open>
  \<open>ptr\<close> in \<open>device_open\<close> points to a pointer: to the global \<open>slots\<close> or to the
  \<open>next\<close> field of a slot. The loop gives the slot found (or \<open>NULL\<close>) and the place
  \<open>ptr\<close> points to when it stops.
\<close>

datatype link = Head | NextOf addr

partial_function (option) find_slot ::
  "(addr \<Rightarrow> object option) \<Rightarrow> link \<Rightarrow> ptr \<Rightarrow> int \<Rightarrow> (ptr \<times> link) outcome option" where
  "find_slot h ptr cur mnr =
     (case cur of
        None \<Rightarrow> Some (Ret (None, ptr))
      | Some a \<Rightarrow>
          (case h a of
             Some (Slot sl) \<Rightarrow>
               if minor sl = mnr then Some (Ret (Some a, ptr))
               else find_slot h (NextOf a) (slot_next sl) mnr
           | _ \<Rightarrow> Some Fault))"

definition link_slot :: "kernel \<Rightarrow> link \<Rightarrow> addr \<Rightarrow> kernel outcome" where
  "link_slot s ptr slot =
     (case ptr of
        Head \<Rightarrow> Ret (s\<lparr>slots := Some slot\<rparr>)
      | NextOf a \<Rightarrow>
          (case heap s a of
             Some (Slot sl) \<Rightarrow> Ret (s\<lparr>heap := (heap s)(a \<mapsto> Slot (sl\<lparr>slot_next := Some slot\<rparr>))\<rparr>)
           | _ \<Rightarrow> Fault))"

definition device_open ::
  "kernel \<Rightarrow> struct_file \<Rightarrow> int \<Rightarrow> ptr \<Rightarrow> (int \<times> struct_file \<times> kernel) outcome option" where
  "device_open s filp mnr km =
     (case find_slot (heap s) Head (slots s) mnr of
        None \<Rightarrow> None
      | Some Fault \<Rightarrow> Some Fault
      | Some (Ret (Some slot, ptr)) \<Rightarrow> Some (Ret (0, filp\<lparr>private_data := Some slot\<rparr>, s))
      | Some (Ret (None, ptr)) \<Rightarrow>
          (case km of
             None \<Rightarrow> Some (Ret (- ENOMEM, filp, s))
           | Some slot \<Rightarrow>
               (case link_slot
                   (s\<lparr>heap := (heap s)(slot \<mapsto> Slot \<lparr>channels = None, channel_count = 0,
                        minor = mnr, slot_next = None\<rparr>)\<rparr>) ptr slot of
                  Fault \<Rightarrow> Some Fault
                | Ret s' \<Rightarrow> Some (Ret (0, filp\<lparr>private_data := Some slot\<rparr>, s')))))"

subsection \<open>device_ioctl\<close>

text \<open>
  \<open>ioctl_param\<close> is an \<open>unsigned long\<close> (64 bits); it is compared with 0 as such and
  then cast to \<open>unsigned int\<close>, which keeps its low 32 bits. The handler reads
  \<open>private_data\<close> as a slot, whatever it holds.
\<close>

definition device_ioctl ::
  "kernel \<Rightarrow> struct_file \<Rightarrow> 32 word \<Rightarrow> 64 word \<Rightarrow> ptr \<Rightarrow> byte list \<Rightarrow>
     (int \<times> struct_file \<times> kernel) outcome option" where
  "device_ioctl s filp ioctl_num ioctl_param km junk =
     (if ioctl_num \<noteq> MSG_SLOT_CHANNEL \<or> ioctl_param = 0 then Some (Ret (- EINVAL, filp, s))
      else
        (case private_data filp of
           None \<Rightarrow> Some (Ret (- EINVAL, filp, s))
         | Some slot \<Rightarrow>
             (case get_or_create_channel s slot (ucast ioctl_param) km junk of
                None \<Rightarrow> None
              | Some Fault \<Rightarrow> Some Fault
              | Some (Ret (None, s')) \<Rightarrow> Some (Ret (- EINVAL, filp, s'))
              | Some (Ret (Some channel, s')) \<Rightarrow>
                  Some (Ret (0, filp\<lparr>private_data := Some channel\<rparr>, s')))))"

subsection \<open>device_write\<close>

text \<open>
  \<open>buf\<close> is the user buffer, \<open>count\<close> the number of bytes the caller asks to write.
  The handler reads \<open>private_data\<close> as a channel. It clears the message array, copies,
  and sets the length only when the copy was complete. The result is the value returned
  (\<open>ssize_t\<close>) and the kernel state.
\<close>

definition device_write ::
  "kernel \<Rightarrow> struct_file \<Rightarrow> byte list \<Rightarrow> 64 word \<Rightarrow> (int \<times> kernel) outcome" where
  "device_write s filp buf count =
     (case private_data filp of
        None \<Rightarrow> Ret (- EINVAL, s)
      | Some a \<Rightarrow>
          if count = 0 \<or> 128 < count then Ret (- EMSGSIZE, s)
          else
            (case heap s a of
               Some (Channel channel) \<Rightarrow>
                 (case copy_from_user memset_message buf (unat count) of
                    (msg, left) \<Rightarrow>
                      if left \<noteq> 0
                      then Ret (- 1, s\<lparr>heap := (heap s)(a \<mapsto> Channel (channel\<lparr>message := msg\<rparr>))\<rparr>)
                      else Ret (sint count,
                        s\<lparr>heap := (heap s)
                          (a \<mapsto> Channel (channel\<lparr>message := msg, message_len := count\<rparr>))\<rparr>))
             | _ \<Rightarrow> Fault))"

subsection \<open>device_read\<close>

text \<open>
  \<open>buf\<close> is the user buffer the message goes to and \<open>count\<close> the size the caller gives
  for it. The result is the value returned, the user buffer after the call and the
  kernel state. Copying more bytes than the message array holds would read past the
  array: a fault.
\<close>

definition device_read ::
  "kernel \<Rightarrow> struct_file \<Rightarrow> byte list \<Rightarrow> 64 word \<Rightarrow> (int \<times> byte list \<times> kernel) outcome" where
  "device_read s filp buf count =
     (case private_data filp of
        None \<Rightarrow> Ret (- 1, buf, s)
      | Some a \<Rightarrow>
          (case heap s a of
             Some (Channel channel) \<Rightarrow>
               if message_len channel = 0 then Ret (- EWOULDBLOCK, buf, s)
               else if count < message_len channel then Ret (- ENOSPC, buf, s)
               else if length (message channel) < unat (message_len channel) then Fault
               else
                 (case copy_to_user buf (message channel) (unat (message_len channel)) of
                    (buf', left) \<Rightarrow>
                      if left \<noteq> 0 then Ret (- 1, buf', s)
                      else Ret (sint (message_len channel), buf', s))
           | _ \<Rightarrow> Fault))"

section \<open>Sequences of calls\<close>

text \<open>Reads one after the other on one session, each with its own buffer and size.\<close>

fun read_many ::
  "kernel \<Rightarrow> struct_file \<Rightarrow> (byte list \<times> 64 word) list \<Rightarrow>
     ((int \<times> byte list) list \<times> kernel) outcome" where
  "read_many s filp [] = Ret ([], s)"
| "read_many s filp ((buf, count) # rs) =
     (case device_read s filp buf count of
        Fault \<Rightarrow> Fault
      | Ret (r, buf', s') \<Rightarrow>
          (case read_many s' filp rs of
             Fault \<Rightarrow> Fault
           | Ret (rets, s'') \<Rightarrow> Ret ((r, buf') # rets, s'')))"

text \<open>
  Calls of \<open>get_or_create_channel\<close> on one slot, one after the other. A request is the
  channel id, the block \<open>kmalloc\<close> would give if the call asks for one, and the bytes in
  that block.
\<close>

fun create_all ::
  "kernel \<Rightarrow> addr \<Rightarrow> (32 word \<times> addr \<times> byte list) list \<Rightarrow>
     (ptr list \<times> kernel) outcome option" where
  "create_all s slot [] = Some (Ret ([], s))"
| "create_all s slot ((cid, n, junk) # reqs) =
     (case get_or_create_channel s slot cid (Some n) junk of
        None \<Rightarrow> None
      | Some Fault \<Rightarrow> Some Fault
      | Some (Ret (p, s')) \<Rightarrow>
          (case create_all s' slot reqs of
             None \<Rightarrow> None
           | Some Fault \<Rightarrow> Some Fault
           | Some (Ret (ps, s'')) \<Rightarrow> Some (Ret (p # ps, s''))))"

section \<open>Well-formed objects\<close>

text \<open>
  The data model's bound on a channel: the length is at most 128 and within the array.
\<close>

definition chan_ok :: "message_channel \<Rightarrow> bool" where
  "chan_ok ch \<longleftrightarrow> message_len ch \<le> 128 \<and> unat (message_len ch) \<le> length (message ch)"

text \<open>
  \<open>chan_path h p as\<close>: from the pointer \<open>p\<close> the \<open>next\<close> fields lead through the
  channels at the addresses \<open>as\<close>, in this order, to \<open>NULL\<close>.
\<close>

primrec chan_path :: "(addr \<Rightarrow> object option) \<Rightarrow> ptr \<Rightarrow> addr list \<Rightarrow> bool" where
  "chan_path h p [] = (p = None)"
| "chan_path h p (a # as) =
     (p = Some a \<and>
      (case h a of Some (Channel c) \<Rightarrow> chan_path h (channel_next c) as | _ \<Rightarrow> False))"

definition chan_id_at :: "(addr \<Rightarrow> object option) \<Rightarrow> addr \<Rightarrow> 32 word option" where
  "chan_id_at h a = (case h a of Some (Channel c) \<Rightarrow> Some (channel_id c) | _ \<Rightarrow> None)"

definition has_channel :: "(addr \<Rightarrow> object option) \<Rightarrow> addr list \<Rightarrow> 32 word \<Rightarrow> bool" where
  "has_channel h as cid = (\<exists>a \<in> set as. chan_id_at h a = Some cid)"

section \<open>A session, step by step\<close>

text \<open>
  The states of one run: the module is loaded (\<open>k_boot\<close>), a file of minor 0 is opened
  (\<open>k_open\<close>: the slot is at address 1), channel 1 is selected (\<open>k_sel\<close>: the channel is
  at address 2), the two bytes \<open>hi\<close> are written (\<open>k_msg\<close>). \<open>k_torn\<close> is \<open>k_msg\<close>
  after a write whose copy from user space failed, \<open>k_zero\<close> is \<open>k_open\<close> with a
  channel of id 0.
\<close>

definition k_boot :: kernel where
  "k_boot = \<lparr>heap = Map.empty, slots = None\<rparr>"

definition f_new :: struct_file where
  "f_new = \<lparr>private_data = None\<rparr>"

definition slot_new :: message_slot where
  "slot_new = \<lparr>channels = None, channel_count = 0, minor = 0, slot_next = None\<rparr>"

definition k_open :: kernel where
  "k_open = \<lparr>heap = [1 \<mapsto> Slot slot_new], slots = Some 1\<rparr>"

definition f_open :: struct_file where
  "f_open = \<lparr>private_data = Some 1\<rparr>"

definition junk0 :: "byte list" where
  "junk0 = replicate 128 0x5a"

definition chan_new :: message_channel where
  "chan_new = \<lparr>channel_id = 1, message = junk0, message_len = 0, channel_next = None\<rparr>"

definition k_sel :: kernel where
  "k_sel = \<lparr>heap = [1 \<mapsto> Slot (slot_new\<lparr>channels := Some 2, channel_count := 1\<rparr>),
                    2 \<mapsto> Channel chan_new], slots = Some 1\<rparr>"

definition f_sel :: struct_file where
  "f_sel = \<lparr>private_data = Some 2\<rparr>"

definition k_msg :: kernel where
  "k_msg = \<lparr>heap = [1 \<mapsto> Slot (slot_new\<lparr>channels := Some 2, channel_count := 1\<rparr>),
                    2 \<mapsto> Channel (chan_new\<lparr>message := [0x68, 0x69] @ replicate 126 0,
                                     message_len := 2\<rparr>)],
            slots = Some 1\<rparr>"

definition k_torn :: kernel where
  "k_torn = \<lparr>heap = [1 \<mapsto> Slot (slot_new\<lparr>channels := Some 2, channel_count := 1\<rparr>),
                     2 \<mapsto> Channel (chan_new\<lparr>message := replicate 128 0, message_len := 2\<rparr>)],
             slots = Some 1\<rparr>"

definition k_zero :: kernel where
  "k_zero = \<lparr>heap = [1 \<mapsto> Slot (slot_new\<lparr>channels := Some 2, channel_count := 1\<rparr>),
                     2 \<mapsto> Channel (chan_new\<lparr>channel_id := 0\<rparr>)], slots = Some 1\<rparr>"

text \<open>
  Requests for the channels \<open>1, \<dots>, n\<close>, the channel \<open>i + 1\<close> in a block at address
  \<open>i + 2\<close>.
\<close>

definition reqs_upto :: "nat \<Rightarrow> (32 word \<times> addr \<times> byte list) list" where
  "reqs_upto n = map (\<lambda>i. (of_nat (Suc i), i + 2, junk0)) [0..<n]"

section \<open>Facts about words and the transport\<close>

lemmas errno_defs = EAGAIN_def EWOULDBLOCK_def ENOMEM_def EINVAL_def ENOSPC_def EMSGSIZE_def

lemma MSG_SLOT_CHANNEL_val: "MSG_SLOT_CHANNEL = 0x4004EB00"
  by (simp add: MSG_SLOT_CHANNEL_def MAJOR_NUM_def)

lemma unat_small: "(w :: 64 word) \<le> 128 \<Longrightarrow> unat w \<le> 128"
  using word_le_nat_alt[of w 128] by simp

lemma sint_nonneg: "0 \<le> sint (w :: 64 word) \<Longrightarrow> sint w = int (unat w)"
proof -
  assume a: "0 \<le> sint w"
  have b: "sint w < 2 ^ 63" using sint_lt[of w] by simp
  have "(2::int) ^ 63 < 2 ^ 64" by simp
  with b have c: "sint w < 2 ^ 64" by linarith
  have "uint w = take_bit 64 (sint w)" by (simp add: uint_sint)
  also have "\<dots> = sint w" using a c by (rule take_bit_int_eq_self)
  finally show ?thesis by simp
qed

lemma sint_small: "(w :: 64 word) \<le> 128 \<Longrightarrow> sint w = int (unat w)"
proof -
  assume "w \<le> 128"
  then have "unat w \<le> 128" by (rule unat_small)
  then have "int (unat w) \<le> 128" by linarith
  then have u: "uint w \<le> 128" by simp
  have "(128::int) < 2 ^ 63" by simp
  with u have "uint w < 2 ^ 63" by linarith
  moreover have "- (2 ^ 63) \<le> (0::int)" by simp
  then have "- (2 ^ 63) \<le> uint w" using uint_ge_0[of w] by (rule order_trans)
  ultimately have "signed_take_bit 63 (uint w) = uint w"
    by (simp add: signed_take_bit_int_eq_self)
  then show ?thesis by (simp add: sint_uint)
qed

lemma unat_2p20: "unat (2 ^ 20 :: 64 word) = 2 ^ 20"
  by simp

lemma count_less_cap: "unat (c :: 64 word) < 2 ^ 20 \<Longrightarrow> c < 2 ^ 20"
  using word_less_nat_alt[of c "2 ^ 20"] unat_2p20 by simp

lemma count_eq_cap: "unat (c :: 64 word) = 2 ^ 20 \<Longrightarrow> c = 2 ^ 20"
  using word_unat_eq_iff[of c "2 ^ 20"] unat_2p20 by simp

lemma unat_count_succ: "unat (c :: 64 word) < 2 ^ 20 \<Longrightarrow> unat (c + 1) = unat c + 1"
proof -
  assume a: "unat c < 2 ^ 20"
  have "(2::nat) ^ 20 + 1 < 2 ^ 64" by simp
  with a have "unat c + 1 < 2 ^ 64" by linarith
  then have "(unat c + 1) mod 2 ^ 64 = unat c + 1" by (rule mod_less)
  then show ?thesis by (simp add: unat_word_ariths)
qed

lemma w32_zero: "(ucast (2 ^ 32 :: 64 word) :: 32 word) = 0"
  by simp

lemma copy_to_user_ok:
  "n \<le> length dst \<Longrightarrow> copy_to_user dst src n = (take n src @ drop n dst, 0)"
  by (simp add: copy_to_user_def min_def)

lemma copy_from_user_left: "snd (copy_from_user dst src n) = 0 \<longleftrightarrow> n \<le> length src"
  by (simp add: copy_from_user_def)

lemma copy_to_user_left: "snd (copy_to_user dst src n) = 0 \<longleftrightarrow> n \<le> length dst"
  by (simp add: copy_to_user_def)

section \<open>Opening a file\<close>

text \<open>
  The slot the loop of \<open>device_open\<close> finds is a slot object, and so is the one it
  allocates: after \<open>device_open\<close> has returned 0, \<open>private_data\<close> holds the address of a
  slot.
\<close>

lemma find_slot_result:
  assumes "find_slot h l cur mnr = Some y"
  shows "\<forall>a l'. y = Ret (Some a, l') \<longrightarrow> (\<exists>sl. h a = Some (Slot sl))"
proof (rule find_slot.raw_induct[where P = "\<lambda>h l cur mnr y.
      \<forall>a l'. y = Ret (Some a, l') \<longrightarrow> (\<exists>sl. h a = Some (Slot sl))", OF _ assms])
  fix f :: "(addr \<Rightarrow> object option) \<Rightarrow> link \<Rightarrow> ptr \<Rightarrow> int \<Rightarrow> (ptr \<times> link) outcome option"
  fix h ptr cur mnr y
  assume IH: "\<And>h ptr cur mnr y. f h ptr cur mnr = Some y \<Longrightarrow>
      \<forall>a l'. y = Ret (Some a, l') \<longrightarrow> (\<exists>sl. h a = Some (Slot sl))"
    and step: "(case cur of
        None \<Rightarrow> Some (Ret (None, ptr))
      | Some a \<Rightarrow>
          (case h a of
             Some (Slot sl) \<Rightarrow>
               if minor sl = mnr then Some (Ret (Some a, ptr))
               else f h (NextOf a) (slot_next sl) mnr
           | _ \<Rightarrow> Some Fault)) = Some y"
  show "\<forall>a l'. y = Ret (Some a, l') \<longrightarrow> (\<exists>sl. h a = Some (Slot sl))"
    using step IH
    by (auto split: option.splits object.splits if_splits)
qed

lemma find_slot_found:
  "find_slot h l cur mnr = Some (Ret (Some a, l')) \<Longrightarrow> \<exists>sl. h a = Some (Slot sl)"
  using find_slot_result[of h l cur mnr "Ret (Some a, l')"] by simp

lemma device_open_private_data:
  assumes "device_open s filp mnr km = Some (Ret (0, filp', s'))"
  shows "\<exists>slot sl. private_data filp' = Some slot \<and> heap s' slot = Some (Slot sl)"
proof (cases "find_slot (heap s) Head (slots s) mnr")
  case None
  then show ?thesis using assms by (simp add: device_open_def)
next
  case (Some res)
  show ?thesis
  proof (cases res)
    case Fault
    then show ?thesis using assms Some by (simp add: device_open_def)
  next
    case (Ret pl)
    obtain p l where pl: "pl = (p, l)" by (cases pl)
    show ?thesis
    proof (cases p)
      case (Some a)
      with \<open>find_slot (heap s) Head (slots s) mnr = Some res\<close> Ret pl
      have f: "find_slot (heap s) Head (slots s) mnr = Some (Ret (Some a, l))" by simp
      from find_slot_found[OF f] obtain sl where "heap s a = Some (Slot sl)" by blast
      then show ?thesis using assms f by (simp add: device_open_def) auto
    next
      case None
      with \<open>find_slot (heap s) Head (slots s) mnr = Some res\<close> Ret pl
      have f: "find_slot (heap s) Head (slots s) mnr = Some (Ret (None, l))" by simp
      show ?thesis
        using assms f
        by (auto simp: device_open_def link_slot_def errno_defs
            split: option.splits link.splits object.splits if_splits)
    qed
  qed
qed

lemma device_open_boot: "device_open k_boot f_new 0 (Some 1) = Some (Ret (0, f_open, k_open))"
  by (simp add: device_open_def find_slot.simps link_slot_def k_boot_def f_new_def
      slot_new_def k_open_def f_open_def)

section \<open>The channel list of a slot\<close>

lemma chan_path_object:
  "chan_path h p as \<Longrightarrow> a \<in> set as \<Longrightarrow> \<exists>c. h a = Some (Channel c)"
proof (induction as arbitrary: p)
  case Nil
  then show ?case by simp
next
  case (Cons b as)
  then show ?case
    by (auto split: option.splits object.splits)
qed

lemma chan_path_upd:
  "chan_path h p as \<Longrightarrow> n \<notin> set as \<Longrightarrow> chan_path (h(n := x)) p as"
proof (induction as arbitrary: p)
  case Nil
  then show ?case by simp
next
  case (Cons b as)
  then show ?case
    by (auto split: option.splits object.splits)
qed

lemma chan_path_fresh:
  assumes "chan_path h p as" and "h n = None"
  shows "n \<notin> set as"
  using chan_path_object[OF assms(1), of n] assms(2) by auto

lemma chan_path_not_slot:
  assumes "chan_path h p as" and "h slot = Some (Slot sl)"
  shows "slot \<notin> set as"
  using chan_path_object[OF assms(1), of slot] assms(2) by auto

lemma has_channel_upd:
  "n \<notin> set as \<Longrightarrow> has_channel (h(n := x)) as cid = has_channel h as cid"
  by (auto simp: has_channel_def chan_id_at_def)

lemma find_channel_path:
  "chan_path h p as \<Longrightarrow>
   find_channel h p cid = Some (Ret (List.find (\<lambda>a. chan_id_at h a = Some cid) as))"
proof (induction as arbitrary: p)
  case Nil
  then show ?case by (simp add: find_channel.simps)
next
  case (Cons b as)
  from Cons.prems obtain c where p: "p = Some b" and hb: "h b = Some (Channel c)"
    and rest: "chan_path h (channel_next c) as"
    by (auto split: option.splits object.splits)
  show ?case
  proof (cases "channel_id c = cid")
    case True
    then show ?thesis
      using p hb by (subst find_channel.simps) (simp add: chan_id_at_def)
  next
    case False
    then show ?thesis
      using p hb Cons.IH[OF rest] by (subst find_channel.simps) (simp add: chan_id_at_def)
  qed
qed

lemma find_None_iff_has_channel:
  "List.find (\<lambda>a. chan_id_at h a = Some cid) as = None \<longleftrightarrow> \<not> has_channel h as cid"
  by (auto simp: find_None_iff has_channel_def)

text \<open>
  The three ways out of \<open>get_or_create_channel\<close> on a slot with a well-formed list:
  the id is there, the id is not there and the count has reached the cap, the id is not
  there and a new channel is put in front of the list.
\<close>

lemma get_or_create_channel_found:
  assumes "heap s slot = Some (Slot sl)" and "chan_path (heap s) (channels sl) as"
    and "has_channel (heap s) as cid"
  shows "\<exists>a \<in> set as. chan_id_at (heap s) a = Some cid
    \<and> get_or_create_channel s slot cid km junk = Some (Ret (Some a, s))"
proof -
  from assms(3) obtain a where
    f: "List.find (\<lambda>a. chan_id_at (heap s) a = Some cid) as = Some a"
    using find_None_iff_has_channel[of "heap s" cid as] by (cases "List.find (\<lambda>a. chan_id_at (heap s) a = Some cid) as") auto
  then have a: "a \<in> set as" "chan_id_at (heap s) a = Some cid"
    by (auto simp: find_Some_iff)
  have "get_or_create_channel s slot cid km junk = Some (Ret (Some a, s))"
    using assms(1) find_channel_path[OF assms(2), of cid] f
    by (simp add: get_or_create_channel_def)
  with a show ?thesis by blast
qed

lemma get_or_create_channel_full:
  assumes "heap s slot = Some (Slot sl)" and "chan_path (heap s) (channels sl) as"
    and "\<not> has_channel (heap s) as cid" and "2 ^ 20 \<le> channel_count sl"
  shows "get_or_create_channel s slot cid km junk = Some (Ret (None, s))"
  using assms(1,4) find_channel_path[OF assms(2), of cid]
    find_None_iff_has_channel[of "heap s" cid as] assms(3)
  by (simp add: get_or_create_channel_def)

lemma get_or_create_channel_new:
  assumes "heap s slot = Some (Slot sl)" and "chan_path (heap s) (channels sl) as"
    and "\<not> has_channel (heap s) as cid" and "channel_count sl < 2 ^ 20"
  shows "get_or_create_channel s slot cid (Some n) junk =
     Some (Ret (Some n,
       s\<lparr>heap := (heap s)
           (n \<mapsto> Channel \<lparr>channel_id = cid, message = junk,
                message_len = 0, channel_next = channels sl\<rparr>,
            slot \<mapsto> Slot (sl\<lparr>channels := Some n,
                channel_count := channel_count sl + 1\<rparr>))\<rparr>))"
proof -
  have "\<not> 2 ^ 20 \<le> channel_count sl" using assms(4) by (simp add: not_le)
  then show ?thesis
    using assms(1) find_channel_path[OF assms(2), of cid]
      find_None_iff_has_channel[of "heap s" cid as] assms(3)
    by (simp add: get_or_create_channel_def)
qed

lemma get_or_create_channel_new_state:
  assumes "heap s slot = Some (Slot sl)" and "chan_path (heap s) (channels sl) as"
    and "\<not> has_channel (heap s) as cid" and "channel_count sl < 2 ^ 20"
    and "heap s n = None"
  shows "\<exists>s'. get_or_create_channel s slot cid (Some n) junk = Some (Ret (Some n, s'))
    \<and> heap s' slot = Some (Slot (sl\<lparr>channels := Some n, channel_count := channel_count sl + 1\<rparr>))
    \<and> chan_path (heap s') (Some n) (n # as)
    \<and> heap s' n = Some (Channel \<lparr>channel_id = cid, message = junk,
                message_len = 0, channel_next = channels sl\<rparr>)
    \<and> (\<forall>x. x \<noteq> n \<and> x \<noteq> slot \<longrightarrow> heap s' x = heap s x)
    \<and> (\<forall>cid'. has_channel (heap s') (n # as) cid' \<longleftrightarrow> cid' = cid \<or> has_channel (heap s) as cid')
    \<and> slots s' = slots s"
proof -
  define s' where "s' = s\<lparr>heap := (heap s)
           (n \<mapsto> Channel \<lparr>channel_id = cid, message = junk,
                message_len = 0, channel_next = channels sl\<rparr>,
            slot \<mapsto> Slot (sl\<lparr>channels := Some n,
                channel_count := channel_count sl + 1\<rparr>))\<rparr>"
  have ns: "n \<noteq> slot" using assms(1,5) by auto
  have n_as: "n \<notin> set as" using assms(2,5) by (rule chan_path_fresh)
  have s_as: "slot \<notin> set as" using assms(2,1) by (rule chan_path_not_slot)
  have g: "get_or_create_channel s slot cid (Some n) junk = Some (Ret (Some n, s'))"
    unfolding s'_def by (rule get_or_create_channel_new[OF assms(1-4)])
  have hs: "heap s' slot = Some (Slot (sl\<lparr>channels := Some n, channel_count := channel_count sl + 1\<rparr>))"
    by (simp add: s'_def)
  have hn: "heap s' n = Some (Channel \<lparr>channel_id = cid, message = junk,
                message_len = 0, channel_next = channels sl\<rparr>)"
    using ns by (simp add: s'_def)
  have p: "chan_path (heap s') (channels sl) as"
    unfolding s'_def using chan_path_upd[OF chan_path_upd[OF assms(2) n_as] s_as] by simp
  have pn: "chan_path (heap s') (Some n) (n # as)"
    using hn p by simp
  have other: "\<forall>x. x \<noteq> n \<and> x \<noteq> slot \<longrightarrow> heap s' x = heap s x"
    by (simp add: s'_def)
  have hc: "\<forall>cid'. has_channel (heap s') (n # as) cid' \<longleftrightarrow> cid' = cid \<or> has_channel (heap s) as cid'"
  proof
    fix cid'
    have "has_channel (heap s') as cid' = has_channel (heap s) as cid'"
      unfolding s'_def using has_channel_upd[OF s_as] has_channel_upd[OF n_as] by simp
    then show "has_channel (heap s') (n # as) cid' \<longleftrightarrow> cid' = cid \<or> has_channel (heap s) as cid'"
      using hn by (auto simp: has_channel_def chan_id_at_def)
  qed
  have "slots s' = slots s" by (simp add: s'_def)
  with g hs pn hn other hc show ?thesis by blast
qed

lemma create_all_ok:
  assumes "heap s slot = Some (Slot sl)" and "chan_path (heap s) (channels sl) as"
    and "distinct (map fst reqs)" and "\<forall>r \<in> set reqs. \<not> has_channel (heap s) as (fst r)"
    and "distinct (map (\<lambda>r. fst (snd r)) reqs)" and "\<forall>r \<in> set reqs. heap s (fst (snd r)) = None"
    and "unat (channel_count sl) + length reqs \<le> 2 ^ 20"
  shows "\<exists>s' sl'. create_all s slot reqs = Some (Ret (map (\<lambda>r. Some (fst (snd r))) reqs, s'))
    \<and> heap s' slot = Some (Slot sl')
    \<and> unat (channel_count sl') = unat (channel_count sl) + length reqs
    \<and> chan_path (heap s') (channels sl') (rev (map (\<lambda>r. fst (snd r)) reqs) @ as)
    \<and> (\<forall>cid. has_channel (heap s') (rev (map (\<lambda>r. fst (snd r)) reqs) @ as) cid \<longleftrightarrow>
          cid \<in> fst ` set reqs \<or> has_channel (heap s) as cid)
    \<and> (\<forall>x. x \<noteq> slot \<and> x \<notin> (\<lambda>r. fst (snd r)) ` set reqs \<longrightarrow> heap s' x = heap s x)"
  using assms
proof (induction reqs arbitrary: s sl as)
  case Nil
  then show ?case by simp
next
  case (Cons req reqs)
  obtain cid n junk where req: "req = (cid, n, junk)" by (cases req)
  have nh: "\<not> has_channel (heap s) as cid" using Cons.prems(4) req by simp
  have fresh: "heap s n = None" using Cons.prems(6) req by simp
  have ul: "unat (channel_count sl) < 2 ^ 20" using Cons.prems(7) by simp
  have lt: "channel_count sl < 2 ^ 20" using ul by (rule count_less_cap)
  have su: "unat (channel_count sl + 1) = unat (channel_count sl) + 1"
    using ul by (rule unat_count_succ)
  from get_or_create_channel_new_state[OF Cons.prems(1,2) nh lt fresh, of junk]
  obtain s1 where g: "get_or_create_channel s slot cid (Some n) junk = Some (Ret (Some n, s1))"
    and hs: "heap s1 slot = Some (Slot (sl\<lparr>channels := Some n, channel_count := channel_count sl + 1\<rparr>))"
    and pn: "chan_path (heap s1) (Some n) (n # as)"
    and other: "\<forall>x. x \<noteq> n \<and> x \<noteq> slot \<longrightarrow> heap s1 x = heap s x"
    and hc: "\<forall>cid'. has_channel (heap s1) (n # as) cid' \<longleftrightarrow> cid' = cid \<or> has_channel (heap s) as cid'"
    by blast
  let ?sl1 = "sl\<lparr>channels := Some n, channel_count := channel_count sl + 1\<rparr>"
  have p1: "chan_path (heap s1) (channels ?sl1) (n # as)" using pn by simp
  have d1: "distinct (map fst reqs)" using Cons.prems(3) by simp
  have cid_new: "cid \<notin> fst ` set reqs" using Cons.prems(3) req by simp
  have n1: "\<forall>r \<in> set reqs. \<not> has_channel (heap s1) (n # as) (fst r)"
    using hc cid_new Cons.prems(4) by auto
  have d2: "distinct (map (\<lambda>r. fst (snd r)) reqs)" using Cons.prems(5) by simp
  have n_new: "n \<notin> (\<lambda>r. fst (snd r)) ` set reqs" using Cons.prems(5) req by simp
  have slot_live: "slot \<notin> (\<lambda>r. fst (snd r)) ` set reqs"
    using Cons.prems(1,6) by auto
  have f1: "\<forall>r \<in> set reqs. heap s1 (fst (snd r)) = None"
  proof
    fix r assume r: "r \<in> set reqs"
    then have "fst (snd r) \<noteq> n" "fst (snd r) \<noteq> slot" using n_new slot_live by auto
    then have "heap s1 (fst (snd r)) = heap s (fst (snd r))" using other by simp
    then show "heap s1 (fst (snd r)) = None" using Cons.prems(6) r by simp
  qed
  have c1: "unat (channel_count ?sl1) + length reqs \<le> 2 ^ 20"
    using su Cons.prems(7) by simp
  from Cons.IH[OF hs p1 d1 n1 d2 f1 c1]
  obtain s' sl' where
    ca: "create_all s1 slot reqs = Some (Ret (map (\<lambda>r. Some (fst (snd r))) reqs, s'))"
    and hs': "heap s' slot = Some (Slot sl')"
    and cnt: "unat (channel_count sl') = unat (channel_count ?sl1) + length reqs"
    and path: "chan_path (heap s') (channels sl') (rev (map (\<lambda>r. fst (snd r)) reqs) @ n # as)"
    and hc': "\<forall>cid'. has_channel (heap s') (rev (map (\<lambda>r. fst (snd r)) reqs) @ n # as) cid' \<longleftrightarrow>
          cid' \<in> fst ` set reqs \<or> has_channel (heap s1) (n # as) cid'"
    and other': "\<forall>x. x \<noteq> slot \<and> x \<notin> (\<lambda>r. fst (snd r)) ` set reqs \<longrightarrow> heap s' x = heap s1 x"
    by blast
  have r1: "create_all s slot (req # reqs) =
      Some (Ret (map (\<lambda>r. Some (fst (snd r))) (req # reqs), s'))"
    using g ca req by simp
  have r3: "unat (channel_count sl') = unat (channel_count sl) + length (req # reqs)"
    using cnt su by simp
  have r4: "chan_path (heap s') (channels sl') (rev (map (\<lambda>r. fst (snd r)) (req # reqs)) @ as)"
    using path req by simp
  have r5: "\<forall>cid'. has_channel (heap s') (rev (map (\<lambda>r. fst (snd r)) (req # reqs)) @ as) cid' \<longleftrightarrow>
          cid' \<in> fst ` set (req # reqs) \<or> has_channel (heap s) as cid'"
    using hc' hc req by auto
  have r6: "\<forall>x. x \<noteq> slot \<and> x \<notin> (\<lambda>r. fst (snd r)) ` set (req # reqs) \<longrightarrow> heap s' x = heap s x"
    using other' other req by auto
  from r1 hs' r3 r4 r5 r6 show ?case by blast
qed

text \<open>The requests \<open>reqs_upto n\<close>: distinct ids, distinct blocks, all free in \<open>k_open\<close>.\<close>

lemma channel_id_upto: "i < 2 ^ 20 \<Longrightarrow> unat (of_nat (Suc i) :: 32 word) = Suc i"
proof -
  assume a: "i < 2 ^ 20"
  have "(2::nat) ^ 20 + 1 < 2 ^ 32" by simp
  with a have "Suc i < 2 ^ 32" by linarith
  then have "Suc i mod 2 ^ 32 = Suc i" by (rule mod_less)
  then show ?thesis using unat_of_nat[of "Suc i", where 'a = 32] by simp
qed

lemma reqs_upto_ids: "fst ` set (reqs_upto n) = (\<lambda>i. of_nat (Suc i)) ` {0..<n}"
  by (auto simp: reqs_upto_def image_image)

lemma reqs_upto_length: "length (reqs_upto n) = n"
  by (simp add: reqs_upto_def)

lemma reqs_upto_distinct_ids:
  assumes "n \<le> 2 ^ 20"
  shows "distinct (map fst (reqs_upto n))"
proof -
  have "inj_on (\<lambda>i. of_nat (Suc i) :: 32 word) {0..<n}"
  proof (rule inj_onI)
    fix i j assume i: "i \<in> {0..<n}" and j: "j \<in> {0..<n}"
      and e: "(of_nat (Suc i) :: 32 word) = of_nat (Suc j)"
    from i j assms have "i < 2 ^ 20" "j < 2 ^ 20" by auto
    then have "unat (of_nat (Suc i) :: 32 word) = Suc i" "unat (of_nat (Suc j) :: 32 word) = Suc j"
      by (simp_all only: channel_id_upto)
    with e show "i = j" by simp
  qed
  then have "distinct (map (\<lambda>i. of_nat (Suc i) :: 32 word) [0..<n])"
    by (simp add: distinct_map)
  then show ?thesis by (simp add: reqs_upto_def comp_def)
qed

lemma reqs_upto_distinct_addrs: "distinct (map (\<lambda>r. fst (snd r)) (reqs_upto n))"
proof -
  have "inj_on (\<lambda>i. i + 2) {0..<n}" by (rule inj_onI) simp
  then have "distinct (map (\<lambda>i. i + 2) [0..<n])" by (simp add: distinct_map)
  then show ?thesis by (simp add: reqs_upto_def comp_def)
qed

lemma reqs_upto_fresh: "\<forall>r \<in> set (reqs_upto n). heap k_open (fst (snd r)) = None"
  by (auto simp: reqs_upto_def k_open_def)

lemma reqs_upto_not_next:
  assumes "n \<le> 2 ^ 20"
  shows "(2 ^ 20 + 1 :: 32 word) \<notin> fst ` set (reqs_upto n)"
proof
  assume "(2 ^ 20 + 1 :: 32 word) \<in> fst ` set (reqs_upto n)"
  then obtain i where i: "i < n" and e: "(2 ^ 20 + 1 :: 32 word) = of_nat (Suc i)"
    by (auto simp: reqs_upto_ids)
  from i assms have "i < 2 ^ 20" by simp
  then have "unat (of_nat (Suc i) :: 32 word) = Suc i" by (rule channel_id_upto)
  with e have "unat (2 ^ 20 + 1 :: 32 word) = Suc i" by simp
  moreover have "unat (2 ^ 20 + 1 :: 32 word) = 2 ^ 20 + 1" by simp
  ultimately show False using \<open>i < 2 ^ 20\<close> by simp
qed

lemma reqs_upto_has_7: "7 \<le> n \<Longrightarrow> (7 :: 32 word) \<in> fst ` set (reqs_upto n)"
proof -
  assume "7 \<le> n"
  then have "(6::nat) \<in> {0..<n}" by simp
  then have "(of_nat (Suc 6) :: 32 word) \<in> (\<lambda>i. of_nat (Suc i)) ` {0..<n}" by (rule imageI)
  then show ?thesis by (simp add: reqs_upto_ids)
qed

section \<open>Selecting a channel\<close>

lemma device_ioctl_open:
  "device_ioctl k_open f_open MSG_SLOT_CHANNEL 1 (Some 2) junk0 = Some (Ret (0, f_sel, k_sel))"
  by (simp add: device_ioctl_def get_or_create_channel_def find_channel.simps
      MSG_SLOT_CHANNEL_val k_open_def f_open_def slot_new_def chan_new_def k_sel_def f_sel_def
      fun_upd_twist)

text \<open>
  A session whose \<open>private_data\<close> holds a channel: \<open>device_ioctl\<close> hands the channel to
  \<open>get_or_create_channel\<close> as if it were the slot.
\<close>

lemma device_ioctl_bound_faults:
  assumes "private_data filp = Some a" and "heap s a = Some (Channel ch)"
    and "ioctl_param \<noteq> 0"
  shows "device_ioctl s filp MSG_SLOT_CHANNEL ioctl_param km junk = Some Fault"
  using assms by (simp add: device_ioctl_def get_or_create_channel_def)

lemma device_ioctl_truncates:
  "device_ioctl k_open f_open MSG_SLOT_CHANNEL (2 ^ 32) (Some 2) junk0
     = Some (Ret (0, f_sel, k_zero))"
proof -
  have "(2 ^ 32 :: 64 word) \<noteq> 0" by simp
  moreover have "get_or_create_channel k_open 1 0 (Some 2) junk0 = Some (Ret (Some 2, k_zero))"
    by (simp add: get_or_create_channel_def find_channel.simps k_open_def slot_new_def
      chan_new_def k_zero_def fun_upd_twist)
  ultimately show ?thesis
    by (simp only: device_ioctl_def w32_zero) (simp add: f_open_def f_sel_def)
qed

section \<open>Reading and writing on a bound session\<close>

lemma device_read_success:
  assumes "private_data filp = Some a" and "heap s a = Some (Channel ch)"
    and "message_len ch \<noteq> 0" and "message_len ch \<le> count"
    and "unat (message_len ch) \<le> length (message ch)"
    and "unat (message_len ch) \<le> length buf"
  shows "device_read s filp buf count =
     Ret (sint (message_len ch),
          take (unat (message_len ch)) (message ch) @ drop (unat (message_len ch)) buf, s)"
proof -
  have nl: "\<not> count < message_len ch" using assms(4) by (simp add: not_less)
  have ln: "\<not> length (message ch) < unat (message_len ch)"
    using assms(5) by (simp add: not_less)
  show ?thesis
    using assms(1,2,3,6) nl ln
    by (simp add: device_read_def copy_to_user_ok)
qed

lemma device_read_returns:
  assumes "device_read s filp buf count = Ret (r, buf', s')"
  shows "s' = s"
  using assms
  by (auto simp: device_read_def split: option.splits object.splits if_splits prod.splits)

lemma device_read_nonneg:
  assumes "private_data filp = Some a" and "heap s a = Some (Channel ch)"
    and "device_read s filp buf count = Ret (r, buf', s')" and "0 \<le> r"
  shows "message_len ch \<noteq> 0 \<and> message_len ch \<le> count
     \<and> unat (message_len ch) \<le> length (message ch) \<and> unat (message_len ch) \<le> length buf
     \<and> r = sint (message_len ch)"
proof -
  have ne: "message_len ch \<noteq> 0"
    using assms by (auto simp: device_read_def errno_defs split: if_splits)
  have le: "\<not> count < message_len ch"
    using assms ne by (auto simp: device_read_def errno_defs split: if_splits)
  have ln: "\<not> length (message ch) < unat (message_len ch)"
    using assms ne le by (auto simp: device_read_def split: if_splits)
  obtain b l where c: "copy_to_user buf (message ch) (unat (message_len ch)) = (b, l)"
    by (cases "copy_to_user buf (message ch) (unat (message_len ch))")
  have l0: "l = 0"
    using assms ne le ln c by (auto simp: device_read_def split: if_splits)
  then have lb: "unat (message_len ch) \<le> length buf"
    using copy_to_user_left[of buf "message ch" "unat (message_len ch)"] c by simp
  have r: "r = sint (message_len ch)"
    using assms ne le ln c l0 by (auto simp: device_read_def)
  show ?thesis using ne le ln lb r by (simp add: not_less)
qed

lemma read_many_same:
  assumes "private_data filp = Some a" and "heap s a = Some (Channel ch)"
    and "message_len ch \<noteq> 0" and "unat (message_len ch) \<le> length (message ch)"
    and "\<forall>(b, c) \<in> set rs. message_len ch \<le> c \<and> unat (message_len ch) \<le> length b"
  shows "read_many s filp rs =
     Ret (map (\<lambda>(b, c). (sint (message_len ch),
            take (unat (message_len ch)) (message ch) @ drop (unat (message_len ch)) b)) rs, s)"
  using assms(5)
proof (induction rs)
  case Nil
  then show ?case by simp
next
  case (Cons x rs)
  obtain b c where x: "x = (b, c)" by (cases x)
  from Cons.prems x have bc: "message_len ch \<le> c" "unat (message_len ch) \<le> length b"
    by auto
  from Cons have IH: "read_many s filp rs =
     Ret (map (\<lambda>(b, c). (sint (message_len ch),
            take (unat (message_len ch)) (message ch) @ drop (unat (message_len ch)) b)) rs, s)"
    by simp
  show ?case
    using device_read_success[OF assms(1,2,3) bc(1) assms(4) bc(2)] IH x by simp
qed

lemma device_write_nonneg:
  assumes "private_data filp = Some a" and "heap s a = Some (Channel ch)"
    and "device_write s filp buf count = Ret (r, s')" and "0 \<le> r"
  shows "count \<noteq> 0 \<and> count \<le> 128 \<and> unat count \<le> length buf \<and> r = int (unat count)
    \<and> s' = s\<lparr>heap := (heap s)(a \<mapsto> Channel (ch\<lparr>message :=
            take (unat count) buf @ replicate (128 - unat count) 0, message_len := count\<rparr>))\<rparr>"
proof -
  have c: "\<not> (count = 0 \<or> 128 < count)"
    using assms by (auto simp: device_write_def errno_defs split: if_splits)
  then have c128: "count \<le> 128" by (simp add: not_less)
  obtain m l where cp: "copy_from_user memset_message buf (unat count) = (m, l)"
    by (cases "copy_from_user memset_message buf (unat count)")
  have l0: "l = 0"
    using assms c cp by (auto simp: device_write_def split: if_splits)
  then have lb: "unat count \<le> length buf"
    using copy_from_user_left[of memset_message buf "unat count"] cp by simp
  have m: "m = take (unat count) buf @ replicate (128 - unat count) 0"
    using cp lb by (simp add: copy_from_user_def memset_message_def)
  have "r = sint count"
    using assms c cp l0 by (auto simp: device_write_def)
  then have r: "r = int (unat count)" using c128 by (simp add: sint_small)
  have s': "s' = s\<lparr>heap := (heap s)(a \<mapsto> Channel (ch\<lparr>message := m, message_len := count\<rparr>))\<rparr>"
    using assms c cp l0 by (auto simp: device_write_def)
  show ?thesis using c c128 lb r s' m by simp
qed

lemma device_write_success:
  assumes "private_data filp = Some a" and "heap s a = Some (Channel ch)"
    and "count \<noteq> 0" and "count \<le> 128" and "unat count \<le> length buf"
  shows "device_write s filp buf count = Ret (int (unat count),
     s\<lparr>heap := (heap s)(a \<mapsto> Channel (ch\<lparr>message :=
            take (unat count) buf @ replicate (128 - unat count) 0, message_len := count\<rparr>))\<rparr>)"
proof -
  have c: "\<not> 128 < count" using assms(4) by (simp add: not_less)
  have r: "sint count = int (unat count)" using assms(4) by (rule sint_small)
  show ?thesis
    using assms(1,2,3,5) c r
    by (simp add: device_write_def copy_from_user_def memset_message_def)
qed

lemma device_write_sel: "device_write k_sel f_sel [0x68, 0x69] 2 = Ret (2, k_msg)"
  by (simp add: device_write_def copy_from_user_def memset_message_def chan_new_def k_sel_def
      f_sel_def k_msg_def)

text \<open>
  A write whose copy from user space stops early: the array holds the bytes that were
  read and zeros, the length is not touched.
\<close>

lemma device_write_copy_fault:
  assumes "private_data filp = Some a" and "heap s a = Some (Channel ch)"
    and "count \<noteq> 0" and "count \<le> 128" and "length buf < unat count"
  shows "device_write s filp buf count =
     Ret (- 1, s\<lparr>heap := (heap s)(a \<mapsto> Channel (ch\<lparr>message :=
                   buf @ replicate (128 - length buf) 0\<rparr>))\<rparr>)"
proof -
  have c: "\<not> (count = 0 \<or> 128 < count)" using assms(3,4) by (simp add: leD)
  have u: "unat count \<le> 128" using assms(4) by (rule unat_small)
  have "replicate (unat count - length buf) (0 :: byte) @ replicate (128 - unat count) 0
      = replicate (128 - length buf) 0"
    using assms(5) u by (simp add: replicate_add[symmetric])
  then have "copy_from_user memset_message buf (unat count)
      = (buf @ replicate (128 - length buf) 0, unat count - length buf)"
    using assms(5) by (simp add: copy_from_user_def memset_message_def)
  then show ?thesis
    using assms(1,2,5) c by (simp add: device_write_def)
qed

text \<open>The bound on channels is kept by the handlers that write to the heap.\<close>

lemma get_or_create_channel_chan_ok:
  assumes "get_or_create_channel s slot cid km junk = Some (Ret (p, s'))"
    and "\<forall>a ch. heap s a = Some (Channel ch) \<longrightarrow> chan_ok ch"
  shows "\<forall>a ch. heap s' a = Some (Channel ch) \<longrightarrow> chan_ok ch"
  using assms
  by (auto simp: get_or_create_channel_def chan_ok_def
      split: option.splits object.splits outcome.splits if_splits)

lemma device_write_chan_ok:
  assumes "device_write s filp buf count = Ret (r, s')"
    and "\<forall>a ch. heap s a = Some (Channel ch) \<longrightarrow> chan_ok ch"
  shows "\<forall>a ch. heap s' a = Some (Channel ch) \<longrightarrow> chan_ok ch"
proof (cases "private_data filp")
  case None
  then show ?thesis using assms by (simp add: device_write_def)
next
  case (Some a)
  show ?thesis
  proof (cases "count = 0 \<or> 128 < count")
    case True
    then show ?thesis using assms Some by (simp add: device_write_def)
  next
    case False
    then have c: "count \<le> 128" by (simp add: not_less)
    then have u: "unat count \<le> 128" by (rule unat_small)
    from assms(1) Some False obtain ch where h: "heap s a = Some (Channel ch)"
      by (auto simp: device_write_def split: option.splits object.splits)
    then have ok: "chan_ok ch" using assms(2) by simp
    then have l: "unat (message_len ch) \<le> 128"
      by (simp add: chan_ok_def unat_small)
    show ?thesis
      using assms Some False h ok c u l
      by (auto simp: device_write_def copy_from_user_def memset_message_def chan_ok_def
          split: if_splits)
  qed
qed

section \<open>The claims\<close>

text \<open>
  C1. A freshly opened session (no select-channel yet) that writes or reads should fail
  with ChannelNotSelected: \<open>-EINVAL\<close> from \<open>device_write\<close>, \<open>-1\<close> from
  \<open>device_read\<close>. The code does not: \<open>device_open\<close> leaves the slot's address in
  \<open>private_data\<close>, so the test \<open>!file->private_data\<close> of both handlers is false.
  After every \<open>device_open\<close> that returned 0, a write of 0 or of more than 128 bytes
  returns \<open>-EMSGSIZE\<close>, a write of 1 to 128 bytes and a read go on and use the slot as
  if it were a channel, and no write returns \<open>-EINVAL\<close>.
\<close>

theorem fresh_session_not_rejected:
  assumes "device_open s filp mnr km = Some (Ret (0, filp', s'))"
  shows "private_data filp' \<noteq> None
    \<and> (count = 0 \<or> 128 < count \<longrightarrow> device_write s' filp' buf count = Ret (- EMSGSIZE, s'))
    \<and> (count \<noteq> 0 \<and> count \<le> 128 \<longrightarrow> device_write s' filp' buf count = Fault)
    \<and> device_write s' filp' buf count \<noteq> Ret (- EINVAL, s')
    \<and> device_read s' filp' buf count = Fault"
proof -
  from device_open_private_data[OF assms]
  obtain slot sl where p: "private_data filp' = Some slot" and h: "heap s' slot = Some (Slot sl)"
    by blast
  have 1: "count = 0 \<or> 128 < count \<longrightarrow> device_write s' filp' buf count = Ret (- EMSGSIZE, s')"
    using p by (simp add: device_write_def)
  have 2: "count \<noteq> 0 \<and> count \<le> 128 \<longrightarrow> device_write s' filp' buf count = Fault"
  proof
    assume "count \<noteq> 0 \<and> count \<le> 128"
    then have "\<not> (count = 0 \<or> 128 < count)" by (simp add: leD)
    then show "device_write s' filp' buf count = Fault"
      using p h by (simp add: device_write_def)
  qed
  have 3: "device_write s' filp' buf count \<noteq> Ret (- EINVAL, s')"
    using p h by (simp add: device_write_def errno_defs)
  have 4: "device_read s' filp' buf count = Fault"
    using p h by (simp add: device_read_def)
  show ?thesis using p 1 2 3 4 by simp
qed

text \<open>
  C1 at work: the first open after the module is loaded, then a write of 0 bytes, a write
  of 1 byte and a read.
\<close>

theorem fresh_session_not_rejected_witness:
  "device_open k_boot f_new 0 (Some 1) = Some (Ret (0, f_open, k_open))
   \<and> private_data f_open = Some 1
   \<and> device_write k_open f_open [] 0 = Ret (- EMSGSIZE, k_open)
   \<and> - EMSGSIZE \<noteq> - EINVAL
   \<and> device_write k_open f_open [0x68] 1 = Fault
   \<and> device_read k_open f_open (replicate 128 0) 128 = Fault"
proof -
  have "device_write k_open f_open [] 0 = Ret (- EMSGSIZE, k_open)"
    using fresh_session_not_rejected[OF device_open_boot, of 0 "[]"] by simp
  moreover have "device_write k_open f_open [0x68] 1 = Fault"
    using fresh_session_not_rejected[OF device_open_boot, of 1 "[0x68]"] by simp
  moreover have "device_read k_open f_open (replicate 128 0) 128 = Fault"
    using fresh_session_not_rejected[OF device_open_boot, of 128 "replicate 128 0"] by simp
  moreover have "- EMSGSIZE \<noteq> - EINVAL" by (simp add: errno_defs)
  moreover have "private_data f_open = Some 1" by (simp add: f_open_def)
  ultimately show ?thesis using device_open_boot by simp
qed

text \<open>
  C2. A session bound to one channel should be able to select another channel of its
  slot. The code does not: the first \<open>device_ioctl\<close> overwrites \<open>private_data\<close> with
  the channel's address, and every later \<open>device_ioctl\<close> of the session reads it back
  as the slot and walks into the channel object as if it were a
  \<open>struct message_slot\<close>, whatever the id asked for.
\<close>

theorem rebind_faults:
  assumes "private_data filp = Some a" and "heap s a = Some (Channel ch)"
    and "ioctl_param \<noteq> 0"
  shows "device_ioctl s filp MSG_SLOT_CHANNEL ioctl_param km junk = Some Fault"
  using assms by (rule device_ioctl_bound_faults)

text \<open>
  C2 at work: on a new session channel 1 is selected and then channel 2.
\<close>

theorem rebind_faults_witness:
  "device_ioctl k_open f_open MSG_SLOT_CHANNEL 1 (Some 2) junk0 = Some (Ret (0, f_sel, k_sel))
   \<and> private_data f_sel = Some 2
   \<and> heap k_sel 2 = Some (Channel chan_new)
   \<and> device_ioctl k_sel f_sel MSG_SLOT_CHANNEL 2 (Some 3) junk0 = Some Fault"
proof -
  have b: "private_data f_sel = Some 2" by (simp add: f_sel_def)
  have h: "heap k_sel 2 = Some (Channel chan_new)" by (simp add: k_sel_def)
  have n: "(2 :: 64 word) \<noteq> 0" by simp
  show ?thesis
    using device_ioctl_open b h rebind_faults[OF b h n, of "Some 3" junk0] by simp
qed

text \<open>
  C3. A write that fails should leave the stored message and its length as they were.
  The code does not when the copy from user space fails: \<open>memset\<close> has cleared the
  array by then, and the old length stays. On a session bound to a channel, a write of 1
  to 128 bytes from a user buffer with fewer readable bytes returns \<open>-1\<close> and leaves
  in the array the bytes that could be read, followed by zeros; the length field is the
  old one.
\<close>

theorem failed_write_clears_message:
  assumes "private_data filp = Some a" and "heap s a = Some (Channel ch)"
    and "count \<noteq> 0" and "count \<le> 128" and "length buf < unat count"
  shows "device_write s filp buf count =
     Ret (- 1, s\<lparr>heap := (heap s)(a \<mapsto> Channel (ch\<lparr>message :=
                   buf @ replicate (128 - length buf) 0\<rparr>))\<rparr>)"
proof -
  have c: "\<not> (count = 0 \<or> 128 < count)" using assms(3,4) by (simp add: leD)
  have u: "unat count \<le> 128" using assms(4) by (rule unat_small)
  have "replicate (unat count - length buf) (0 :: byte) @ replicate (128 - unat count) 0
      = replicate (128 - length buf) 0"
    using assms(5) u by (simp add: replicate_add[symmetric])
  then have "copy_from_user memset_message buf (unat count)
      = (buf @ replicate (128 - length buf) 0, unat count - length buf)"
    using assms(5) by (simp add: copy_from_user_def memset_message_def)
  then show ?thesis
    using assms(1,2,5) c by (simp add: device_write_def)
qed

text \<open>
  C3 at work: the channel holds \<open>hi\<close>; a write of 2 bytes from an unreadable buffer
  returns \<open>-1\<close>, and the next read gives two zero bytes where it gave \<open>hi\<close> before.
\<close>

theorem failed_write_clears_message_witness:
  "heap k_msg 2 = Some (Channel (chan_new\<lparr>message := [0x68, 0x69] @ replicate 126 0,
                                     message_len := 2\<rparr>))
   \<and> device_write k_msg f_sel [] 2 = Ret (- 1, k_torn)
   \<and> heap k_torn 2 = Some (Channel (chan_new\<lparr>message := replicate 128 0, message_len := 2\<rparr>))
   \<and> device_read k_msg f_sel (replicate 128 0xff) 128
       = Ret (2, [0x68, 0x69] @ replicate 126 0xff, k_msg)
   \<and> device_read k_torn f_sel (replicate 128 0xff) 128
       = Ret (2, replicate 2 0 @ replicate 126 0xff, k_torn)"
proof -
  let ?ch = "chan_new\<lparr>message := [0x68, 0x69] @ replicate 126 0, message_len := 2\<rparr>"
  have b: "private_data f_sel = Some 2" by (simp add: f_sel_def)
  have h: "heap k_msg 2 = Some (Channel ?ch)" by (simp add: k_msg_def)
  have n: "(2 :: 64 word) \<noteq> 0" "(2 :: 64 word) \<le> 128" "length ([] :: byte list) < unat (2 :: 64 word)"
    by simp_all
  have "device_write k_msg f_sel [] 2 = Ret (- 1, k_torn)"
    using failed_write_clears_message[OF b h n]
    by (simp add: k_msg_def k_torn_def chan_new_def)
  moreover have "device_read k_torn f_sel (replicate 128 0xff) 128
       = Ret (2, replicate 2 0 @ replicate 126 0xff, k_torn)"
    by (simp add: device_read_def copy_to_user_def chan_new_def f_sel_def k_torn_def)
  moreover have "device_read k_msg f_sel (replicate 128 0xff) 128
       = Ret (2, [0x68, 0x69] @ replicate 126 0xff, k_msg)"
    by (simp add: device_read_def copy_to_user_def chan_new_def f_sel_def k_msg_def)
  moreover have "heap k_torn 2
       = Some (Channel (chan_new\<lparr>message := replicate 128 0, message_len := 2\<rparr>))"
    by (simp add: k_torn_def)
  ultimately show ?thesis using h by simp
qed

text \<open>
  C4. Round trip. On a session bound to a channel, a write of the bytes \<open>m\<close>
  (1 to 128 of them) succeeds and returns \<open>length m\<close>; after it a read with a capacity of at least \<open>length m\<close>, into
  a user buffer that can take \<open>length m\<close> bytes, returns the count \<open>length m\<close> and puts
  exactly \<open>m\<close> at the front of the buffer.
\<close>

theorem write_read_roundtrip:
  assumes "private_data filp = Some a" and "heap s a = Some (Channel ch)"
    and "1 \<le> length m" and "length m \<le> 128"
    and "length m \<le> unat capacity" and "length m \<le> length ubuf"
  shows "\<exists>s'. device_write s filp m (of_nat (length m)) = Ret (int (length m), s')
    \<and> device_read s' filp ubuf capacity = Ret (int (length m), m @ drop (length m) ubuf, s')"
proof -
  let ?count = "of_nat (length m) :: 64 word"
  have u: "unat ?count = length m"
  proof -
    have "(128::nat) < 2 ^ 64" by simp
    with assms(4) have "length m < 2 ^ 64" by linarith
    then show ?thesis by (simp add: unat_of_nat)
  qed
  have c0: "?count \<noteq> 0"
  proof
    assume "?count = 0"
    then have "unat ?count = 0" by simp
    with u assms(3) show False by simp
  qed
  have "unat ?count \<le> unat (128 :: 64 word)" using u assms(4) by simp
  then have c128: "?count \<le> 128" by (simp only: word_le_nat_alt)
  have ub: "unat ?count \<le> length m" using u by simp
  let ?ch = "ch\<lparr>message := m @ replicate (128 - length m) 0, message_len := ?count\<rparr>"
  let ?s = "s\<lparr>heap := (heap s)(a \<mapsto> Channel ?ch)\<rparr>"
  have w: "device_write s filp m ?count = Ret (int (length m), ?s)"
    using device_write_success[OF assms(1,2) c0 c128 ub] u by simp
  have h: "heap ?s a = Some (Channel ?ch)" by simp
  have le: "message_len ?ch \<le> capacity"
    using assms(5) u by (simp add: word_le_nat_alt)
  have "device_read ?s filp ubuf capacity =
     Ret (sint (message_len ?ch),
          take (unat (message_len ?ch)) (message ?ch) @ drop (unat (message_len ?ch)) ubuf, ?s)"
    using c0 u assms(6) by (intro device_read_success[OF assms(1) h _ le]) simp_all
  moreover have "sint ?count = int (length m)"
    using sint_small[OF c128] u by simp
  ultimately have "device_read ?s filp ubuf capacity
      = Ret (int (length m), m @ drop (length m) ubuf, ?s)"
    using u by simp
  with w show ?thesis by blast
qed

text \<open>
  C4 at work: after \<open>hi\<close> is written to channel 1, a read with a capacity of 128 into a
  buffer of 128 bytes returns 2 and puts \<open>hi\<close> at the front of the buffer.
\<close>

theorem write_read_roundtrip_witness:
  "private_data f_sel = Some 2 \<and> heap k_sel 2 = Some (Channel chan_new)
   \<and> device_write k_sel f_sel [0x68, 0x69] 2 = Ret (2, k_msg)
   \<and> device_read k_msg f_sel (replicate 128 0xff) 128
       = Ret (2, [0x68, 0x69] @ replicate 126 0xff, k_msg)"
proof -
  have b: "private_data f_sel = Some 2" by (simp add: f_sel_def)
  have h: "heap k_sel 2 = Some (Channel chan_new)" by (simp add: k_sel_def)
  have l: "1 \<le> length [0x68, 0x69 :: byte]" "length [0x68, 0x69 :: byte] \<le> 128"
    "length [0x68, 0x69 :: byte] \<le> unat (128 :: 64 word)"
    "length [0x68, 0x69 :: byte] \<le> length (replicate 128 (0xff :: byte))"
    by simp_all
  from write_read_roundtrip[OF b h l]
  obtain s' where w: "device_write k_sel f_sel [0x68, 0x69] 2 = Ret (2, s')"
    and r: "device_read s' f_sel (replicate 128 0xff) 128
       = Ret (2, [0x68, 0x69] @ replicate 126 0xff, s')"
    by auto
  from w device_write_sel have "s' = k_msg" by simp
  with w r b h show ?thesis by simp
qed

text \<open>
  C5. The cap of \<open>2 ^ 20\<close> channels. Take a slot with its channel list, and requests
  for new channels (ids distinct and not in the slot, \<open>kmalloc\<close> giving a free block
  each time) that bring the slot's count to exactly \<open>2 ^ 20\<close>. Then every request
  succeeds and returns its new channel; after them the count is \<open>2 ^ 20\<close>, a call
  with a further id returns \<open>NULL\<close> and leaves the state as it is (whatever \<open>kmalloc\<close>
  would give), and a call with an id that exists returns a channel with that id and
  leaves the state as it is.
\<close>

theorem channel_cap:
  assumes "heap s slot = Some (Slot sl)" and "chan_path (heap s) (channels sl) as"
    and "distinct (map fst reqs)" and "\<forall>r \<in> set reqs. \<not> has_channel (heap s) as (fst r)"
    and "distinct (map (\<lambda>r. fst (snd r)) reqs)" and "\<forall>r \<in> set reqs. heap s (fst (snd r)) = None"
    and "unat (channel_count sl) + length reqs = 2 ^ 20"
  shows "\<exists>s' sl'. create_all s slot reqs = Some (Ret (map (\<lambda>r. Some (fst (snd r))) reqs, s'))
    \<and> heap s' slot = Some (Slot sl') \<and> channel_count sl' = 2 ^ 20
    \<and> (\<forall>cid km junk. cid \<notin> fst ` set reqs \<and> \<not> has_channel (heap s) as cid \<longrightarrow>
          get_or_create_channel s' slot cid km junk = Some (Ret (None, s')))
    \<and> (\<forall>cid km junk. cid \<in> fst ` set reqs \<or> has_channel (heap s) as cid \<longrightarrow>
          (\<exists>c. chan_id_at (heap s') c = Some cid
             \<and> get_or_create_channel s' slot cid km junk = Some (Ret (Some c, s'))))"
proof -
  have le: "unat (channel_count sl) + length reqs \<le> 2 ^ 20" using assms(7) by simp
  from create_all_ok[OF assms(1-6) le]
  obtain s' sl' where
    ca: "create_all s slot reqs = Some (Ret (map (\<lambda>r. Some (fst (snd r))) reqs, s'))"
    and hs: "heap s' slot = Some (Slot sl')"
    and cnt: "unat (channel_count sl') = unat (channel_count sl) + length reqs"
    and path: "chan_path (heap s') (channels sl') (rev (map (\<lambda>r. fst (snd r)) reqs) @ as)"
    and hc: "\<forall>cid. has_channel (heap s') (rev (map (\<lambda>r. fst (snd r)) reqs) @ as) cid \<longleftrightarrow>
          cid \<in> fst ` set reqs \<or> has_channel (heap s) as cid"
    by blast
  have "unat (channel_count sl') = 2 ^ 20" using cnt assms(7) by simp
  then have cap: "channel_count sl' = 2 ^ 20" by (rule count_eq_cap)
  then have full: "2 ^ 20 \<le> channel_count sl'" by simp
  have new: "\<forall>cid km junk. cid \<notin> fst ` set reqs \<and> \<not> has_channel (heap s) as cid \<longrightarrow>
          get_or_create_channel s' slot cid km junk = Some (Ret (None, s'))"
  proof (intro allI impI)
    fix cid km junk
    assume "cid \<notin> fst ` set reqs \<and> \<not> has_channel (heap s) as cid"
    then have "\<not> has_channel (heap s') (rev (map (\<lambda>r. fst (snd r)) reqs) @ as) cid"
      using hc by simp
    then show "get_or_create_channel s' slot cid km junk = Some (Ret (None, s'))"
      using full by (intro get_or_create_channel_full[OF hs path])
  qed
  have old: "\<forall>cid km junk. cid \<in> fst ` set reqs \<or> has_channel (heap s) as cid \<longrightarrow>
          (\<exists>c. chan_id_at (heap s') c = Some cid
             \<and> get_or_create_channel s' slot cid km junk = Some (Ret (Some c, s')))"
  proof (intro allI impI)
    fix cid km junk
    assume "cid \<in> fst ` set reqs \<or> has_channel (heap s) as cid"
    then have "has_channel (heap s') (rev (map (\<lambda>r. fst (snd r)) reqs) @ as) cid"
      using hc by simp
    from get_or_create_channel_found[OF hs path this, of km junk]
    show "\<exists>c. chan_id_at (heap s') c = Some cid
             \<and> get_or_create_channel s' slot cid km junk = Some (Ret (Some c, s'))"
      by blast
  qed
  from ca hs cap new old show ?thesis by blast
qed

text \<open>
  C5 at work: on the new slot of \<open>k_open\<close> the channels 1 to \<open>2 ^ 20\<close> are created;
  then channel \<open>2 ^ 20 + 1\<close> is refused and channel 7 is still found.
\<close>

theorem channel_cap_witness:
  "\<exists>s'. create_all k_open 1 (reqs_upto (2 ^ 20))
           = Some (Ret (map (\<lambda>r. Some (fst (snd r))) (reqs_upto (2 ^ 20)), s'))
     \<and> get_or_create_channel s' 1 (2 ^ 20 + 1) (Some (2 ^ 20 + 2)) junk0 = Some (Ret (None, s'))
     \<and> (\<exists>c. chan_id_at (heap s') c = Some 7
            \<and> get_or_create_channel s' 1 7 None junk0 = Some (Ret (Some c, s')))"
proof -
  have sl: "heap k_open 1 = Some (Slot slot_new)" by (simp add: k_open_def)
  have p: "chan_path (heap k_open) (channels slot_new) []" by (simp add: slot_new_def)
  have n: "(2::nat) ^ 20 \<le> 2 ^ 20" by simp
  have nh: "\<forall>r \<in> set (reqs_upto (2 ^ 20)). \<not> has_channel (heap k_open) [] (fst r)"
    by (simp add: has_channel_def)
  have c: "unat (channel_count slot_new) + length (reqs_upto (2 ^ 20)) = 2 ^ 20"
    by (simp only: reqs_upto_length) (simp add: slot_new_def)
  from channel_cap[OF sl p reqs_upto_distinct_ids[OF n] nh reqs_upto_distinct_addrs
      reqs_upto_fresh c]
  obtain s' where
    ca: "create_all k_open 1 (reqs_upto (2 ^ 20))
           = Some (Ret (map (\<lambda>r. Some (fst (snd r))) (reqs_upto (2 ^ 20)), s'))"
    and new: "\<forall>cid km junk. cid \<notin> fst ` set (reqs_upto (2 ^ 20))
          \<and> \<not> has_channel (heap k_open) [] cid \<longrightarrow>
          get_or_create_channel s' 1 cid km junk = Some (Ret (None, s'))"
    and old: "\<forall>cid km junk. cid \<in> fst ` set (reqs_upto (2 ^ 20))
          \<or> has_channel (heap k_open) [] cid \<longrightarrow>
          (\<exists>c. chan_id_at (heap s') c = Some cid
             \<and> get_or_create_channel s' 1 cid km junk = Some (Ret (Some c, s')))"
    by blast
  have e: "\<not> has_channel (heap k_open) [] (2 ^ 20 + 1)" by (simp add: has_channel_def)
  have 1: "get_or_create_channel s' 1 (2 ^ 20 + 1) (Some (2 ^ 20 + 2)) junk0 = Some (Ret (None, s'))"
    using new reqs_upto_not_next[OF n] e by blast
  have "(7::nat) \<le> 2 ^ 20" by simp
  then have "(7 :: 32 word) \<in> fst ` set (reqs_upto (2 ^ 20))" by (rule reqs_upto_has_7)
  then have 2: "\<exists>c. chan_id_at (heap s') c = Some 7
            \<and> get_or_create_channel s' 1 7 None junk0 = Some (Ret (Some c, s'))"
    using old by blast
  from ca 1 2 show ?thesis by blast
qed

text \<open>
  C6. On a session bound to a channel, \<open>device_read\<close> returns \<open>-EWOULDBLOCK\<close> when the
  message length is 0, \<open>-ENOSPC\<close> when the size given is below the message length, and
  otherwise (the user buffer can take the bytes, the channel is within the data model's
  bounds) copies exactly \<open>message_len\<close> bytes and returns that count.
\<close>

theorem device_read_cases:
  assumes "private_data filp = Some a" and "heap s a = Some (Channel ch)"
  shows "(message_len ch = 0 \<longrightarrow> device_read s filp buf count = Ret (- EWOULDBLOCK, buf, s))
    \<and> (message_len ch \<noteq> 0 \<and> count < message_len ch \<longrightarrow>
          device_read s filp buf count = Ret (- ENOSPC, buf, s))
    \<and> (message_len ch \<noteq> 0 \<and> message_len ch \<le> count \<and> chan_ok ch
          \<and> unat (message_len ch) \<le> length buf \<longrightarrow>
          device_read s filp buf count =
            Ret (int (unat (message_len ch)),
                 take (unat (message_len ch)) (message ch) @ drop (unat (message_len ch)) buf, s))"
proof (intro conjI impI)
  assume "message_len ch = 0"
  then show "device_read s filp buf count = Ret (- EWOULDBLOCK, buf, s)"
    using assms by (simp add: device_read_def)
next
  assume "message_len ch \<noteq> 0 \<and> count < message_len ch"
  then show "device_read s filp buf count = Ret (- ENOSPC, buf, s)"
    using assms by (simp add: device_read_def)
next
  assume h: "message_len ch \<noteq> 0 \<and> message_len ch \<le> count \<and> chan_ok ch
          \<and> unat (message_len ch) \<le> length buf"
  then have "sint (message_len ch) = int (unat (message_len ch))"
    by (simp add: chan_ok_def sint_small)
  then show "device_read s filp buf count =
            Ret (int (unat (message_len ch)),
                 take (unat (message_len ch)) (message ch) @ drop (unat (message_len ch)) buf, s)"
    using assms h device_read_success[of filp a s ch count buf] by (simp add: chan_ok_def)
qed

text \<open>
  C6 at work: a read on the new channel 1 (no message), and on the channel holding \<open>hi\<close>
  reads with a size of 1 and of 128.
\<close>

theorem device_read_cases_witness:
  "private_data f_sel = Some 2 \<and> heap k_sel 2 = Some (Channel chan_new)
   \<and> message_len chan_new = 0
   \<and> device_read k_sel f_sel (replicate 128 0xff) 128 = Ret (- EWOULDBLOCK, replicate 128 0xff, k_sel)
   \<and> heap k_msg 2 = Some (Channel (chan_new\<lparr>message := [0x68, 0x69] @ replicate 126 0,
                                     message_len := 2\<rparr>))
   \<and> device_read k_msg f_sel (replicate 128 0xff) 1 = Ret (- ENOSPC, replicate 128 0xff, k_msg)
   \<and> device_read k_msg f_sel (replicate 128 0xff) 128
       = Ret (2, [0x68, 0x69] @ replicate 126 0xff, k_msg)"
proof -
  let ?ch = "chan_new\<lparr>message := [0x68, 0x69] @ replicate 126 0, message_len := 2\<rparr>"
  have b: "private_data f_sel = Some 2" by (simp add: f_sel_def)
  have h: "heap k_sel 2 = Some (Channel chan_new)" by (simp add: k_sel_def)
  have hm: "heap k_msg 2 = Some (Channel ?ch)" by (simp add: k_msg_def)
  have l0: "message_len chan_new = 0" by (simp add: chan_new_def)
  have ok: "chan_ok ?ch" by (simp add: chan_ok_def)
  have 1: "device_read k_sel f_sel (replicate 128 0xff) 128
      = Ret (- EWOULDBLOCK, replicate 128 0xff, k_sel)"
    using device_read_cases[OF b h, of "replicate 128 0xff" 128] l0 by simp
  have 2: "device_read k_msg f_sel (replicate 128 0xff) 1
      = Ret (- ENOSPC, replicate 128 0xff, k_msg)"
    using device_read_cases[OF b hm, of "replicate 128 0xff" 1] by simp
  have 3: "device_read k_msg f_sel (replicate 128 0xff) 128
       = Ret (2, [0x68, 0x69] @ replicate 126 0xff, k_msg)"
    using device_read_cases[OF b hm, of "replicate 128 0xff" 128] ok by simp
  show ?thesis using b h hm l0 1 2 3 by simp
qed

text \<open>
  C7. Selecting a channel twice in a row should keep the message stored for it.
  \<open>get_or_create_channel\<close> on the slot does return a channel that exists, and leaves
  the state as it was. But the second \<open>device_ioctl\<close> of a session does not call it
  with the slot: \<open>private_data\<close> holds the channel by then, and the call uses the
  channel as if it were the slot.
\<close>

theorem reselect_faults:
  assumes "private_data filp = Some a" and "heap s a = Some (Channel ch)"
    and "heap s slot = Some (Slot sl)" and "chan_path (heap s) (channels sl) as"
    and "a \<in> set as" and "ioctl_param \<noteq> 0" and "ucast ioctl_param = channel_id ch"
  shows "(\<exists>c \<in> set as. chan_id_at (heap s) c = Some (channel_id ch)
           \<and> get_or_create_channel s slot (ucast ioctl_param) km junk = Some (Ret (Some c, s)))
    \<and> device_ioctl s filp MSG_SLOT_CHANNEL ioctl_param km junk = Some Fault"
proof -
  have "chan_id_at (heap s) a = Some (channel_id ch)"
    using assms(2) by (simp add: chan_id_at_def)
  then have "has_channel (heap s) as (channel_id ch)"
    using assms(5) by (auto simp: has_channel_def)
  from get_or_create_channel_found[OF assms(3,4) this, of km junk]
  have "\<exists>c \<in> set as. chan_id_at (heap s) c = Some (channel_id ch)
           \<and> get_or_create_channel s slot (ucast ioctl_param) km junk = Some (Ret (Some c, s))"
    using assms(7) by simp
  moreover have "device_ioctl s filp MSG_SLOT_CHANNEL ioctl_param km junk = Some Fault"
    using assms(1,2,6) by (rule device_ioctl_bound_faults)
  ultimately show ?thesis by simp
qed

text \<open>
  C7 at work: channel 1 is selected, \<open>hi\<close> is written, channel 1 is selected again.
\<close>

theorem reselect_faults_witness:
  "device_ioctl k_open f_open MSG_SLOT_CHANNEL 1 (Some 2) junk0 = Some (Ret (0, f_sel, k_sel))
   \<and> device_write k_sel f_sel [0x68, 0x69] 2 = Ret (2, k_msg)
   \<and> get_or_create_channel k_msg 1 1 (Some 3) junk0 = Some (Ret (Some 2, k_msg))
   \<and> device_ioctl k_msg f_sel MSG_SLOT_CHANNEL 1 (Some 3) junk0 = Some Fault"
proof -
  let ?ch = "chan_new\<lparr>message := [0x68, 0x69] @ replicate 126 0, message_len := 2\<rparr>"
  let ?sl = "slot_new\<lparr>channels := Some 2, channel_count := 1\<rparr>"
  have b: "private_data f_sel = Some 2" by (simp add: f_sel_def)
  have h: "heap k_msg 2 = Some (Channel ?ch)" by (simp add: k_msg_def)
  have sl: "heap k_msg 1 = Some (Slot ?sl)" by (simp add: k_msg_def)
  have p: "chan_path (heap k_msg) (channels ?sl) [2]"
    by (simp add: k_msg_def chan_new_def)
  have m: "(2 :: nat) \<in> set [2]" by simp
  have n: "(1 :: 64 word) \<noteq> 0" by simp
  have u: "(ucast (1 :: 64 word) :: 32 word) = channel_id ?ch" by (simp add: chan_new_def)
  from reselect_faults[OF b h sl p m n u, of "Some 3" junk0]
  have "get_or_create_channel k_msg 1 1 (Some 3) junk0 = Some (Ret (Some 2, k_msg))"
    and "device_ioctl k_msg f_sel MSG_SLOT_CHANNEL 1 (Some 3) junk0 = Some Fault"
    by simp_all
  then show ?thesis using device_ioctl_open device_write_sel by simp
qed

text \<open>
  C8. \<open>get_or_create_channel\<close> should reject the id 0. It has no such test: the only
  one is in \<open>device_ioctl\<close>, on the 64-bit argument before the cast to
  \<open>unsigned int\<close>. The argument 0 gives \<open>-EINVAL\<close>; the argument \<open>2 ^ 32\<close> passes
  the test, is cut to the id 0, and \<open>get_or_create_channel\<close>, called with 0 on a slot
  below the cap that has no such channel, creates a channel with id 0, which the session
  is then bound to.
\<close>

theorem zero_id_not_rejected:
  assumes "private_data filp = Some slot" and "heap s slot = Some (Slot sl)"
    and "chan_path (heap s) (channels sl) as" and "\<not> has_channel (heap s) as 0"
    and "channel_count sl < 2 ^ 20" and "heap s n = None"
  shows "device_ioctl s filp MSG_SLOT_CHANNEL 0 (Some n) junk = Some (Ret (- EINVAL, filp, s))
    \<and> (\<exists>s'. get_or_create_channel s slot 0 (Some n) junk = Some (Ret (Some n, s'))
          \<and> heap s' n = Some (Channel \<lparr>channel_id = 0, message = junk,
                message_len = 0, channel_next = channels sl\<rparr>)
          \<and> device_ioctl s filp MSG_SLOT_CHANNEL (2 ^ 32) (Some n) junk
               = Some (Ret (0, filp\<lparr>private_data := Some n\<rparr>, s')))"
proof -
  have z: "device_ioctl s filp MSG_SLOT_CHANNEL 0 (Some n) junk = Some (Ret (- EINVAL, filp, s))"
    by (simp add: device_ioctl_def)
  from get_or_create_channel_new_state[OF assms(2,3,4,5,6), of junk]
  obtain s' where g: "get_or_create_channel s slot 0 (Some n) junk = Some (Ret (Some n, s'))"
    and hn: "heap s' n = Some (Channel \<lparr>channel_id = 0, message = junk,
                message_len = 0, channel_next = channels sl\<rparr>)"
    by blast
  have nz: "(2 ^ 32 :: 64 word) \<noteq> 0" by simp
  have "device_ioctl s filp MSG_SLOT_CHANNEL (2 ^ 32) (Some n) junk
               = Some (Ret (0, filp\<lparr>private_data := Some n\<rparr>, s'))"
    using nz g assms(1) by (simp only: device_ioctl_def w32_zero) simp
  with z g hn show ?thesis by blast
qed

text \<open>
  C8 at work: on the new session of \<open>k_open\<close>, the argument 0 is refused, the argument
  \<open>2 ^ 32\<close> is not, and the slot has a channel with id 0 afterwards.
\<close>

theorem zero_id_not_rejected_witness:
  "device_ioctl k_open f_open MSG_SLOT_CHANNEL 0 (Some 2) junk0
     = Some (Ret (- EINVAL, f_open, k_open))
   \<and> get_or_create_channel k_open 1 0 (Some 2) junk0 = Some (Ret (Some 2, k_zero))
   \<and> heap k_zero 2 = Some (Channel (chan_new\<lparr>channel_id := 0\<rparr>))
   \<and> device_ioctl k_open f_open MSG_SLOT_CHANNEL (2 ^ 32) (Some 2) junk0
       = Some (Ret (0, f_sel, k_zero))"
proof -
  have b: "private_data f_open = Some 1" by (simp add: f_open_def)
  have sl: "heap k_open 1 = Some (Slot slot_new)" by (simp add: k_open_def)
  have p: "chan_path (heap k_open) (channels slot_new) []" by (simp add: slot_new_def)
  have nh: "\<not> has_channel (heap k_open) [] 0" by (simp add: has_channel_def)
  have c: "channel_count slot_new < 2 ^ 20" by (simp add: slot_new_def)
  have f: "heap k_open 2 = None" by (simp add: k_open_def)
  have g0: "get_or_create_channel k_open 1 0 (Some 2) junk0 = Some (Ret (Some 2, k_zero))"
    by (simp add: get_or_create_channel_def find_channel.simps k_open_def slot_new_def
      chan_new_def k_zero_def fun_upd_twist)
  from zero_id_not_rejected[OF b sl p nh c f, of junk0]
  obtain s' where z: "device_ioctl k_open f_open MSG_SLOT_CHANNEL 0 (Some 2) junk0
     = Some (Ret (- EINVAL, f_open, k_open))"
    and g: "get_or_create_channel k_open 1 0 (Some 2) junk0 = Some (Ret (Some 2, s'))"
    and i: "device_ioctl k_open f_open MSG_SLOT_CHANNEL (2 ^ 32) (Some 2) junk0
               = Some (Ret (0, f_open\<lparr>private_data := Some 2\<rparr>, s'))"
    by blast
  from g g0 have s': "s' = k_zero" by simp
  have fs: "f_open\<lparr>private_data := Some 2\<rparr> = f_sel" by (simp add: f_open_def f_sel_def)
  have hz: "heap k_zero 2 = Some (Channel (chan_new\<lparr>channel_id := 0\<rparr>))"
    by (simp add: k_zero_def)
  show ?thesis using z g0 hz i s' fs by simp
qed

text \<open>
  C9. On a session bound to a channel, a read that succeeds leaves the kernel state as
  it was, so the reads that follow it, however many, return the same count and bytes.
  That should last until the next write that succeeds. It does not: a write that fails
  in the copy from user space (it returns \<open>-1\<close>) has cleared the array by then, and the
  read after it returns the old count with the bytes of the failed write and zeros, not
  the message.
\<close>

theorem read_then_failed_write:
  assumes "private_data filp = Some a" and "heap s a = Some (Channel ch)"
    and "message_len ch \<le> 128"
    and "device_read s filp buf count = Ret (r, buf', s')" and "0 \<le> r"
    and "wcount \<noteq> 0" and "wcount \<le> 128" and "length wbuf < unat wcount"
    and "message_len ch \<le> c" and "nat r \<le> length b"
  shows "s' = s \<and> take (nat r) buf' = take (nat r) (message ch)
    \<and> ((\<forall>(b, c) \<in> set rs. message_len ch \<le> c \<and> nat r \<le> length b) \<longrightarrow>
         read_many s' filp rs =
           Ret (map (\<lambda>(b, c). (r, take (nat r) (message ch) @ drop (nat r) b)) rs, s'))
    \<and> device_read s' filp b c = Ret (r, take (nat r) (message ch) @ drop (nat r) b, s')
    \<and> (\<exists>s''. device_write s' filp wbuf wcount = Ret (- 1, s'')
          \<and> device_read s'' filp b c
              = Ret (r, take (nat r) (wbuf @ replicate (128 - length wbuf) 0) @ drop (nat r) b,
                     s''))"
proof -
  have s: "s' = s" using assms(4) by (rule device_read_returns)
  from device_read_nonneg[OF assms(1,2,4,5)]
  have ne: "message_len ch \<noteq> 0" and le: "message_len ch \<le> count"
    and ln: "unat (message_len ch) \<le> length (message ch)"
    and lb: "unat (message_len ch) \<le> length buf"
    and r: "r = sint (message_len ch)"
    by simp_all
  from assms(5) r have "sint (message_len ch) = int (unat (message_len ch))"
    by (simp add: sint_nonneg)
  with r have ru: "r = int (unat (message_len ch))" by simp
  then have n: "nat r = unat (message_len ch)" by simp
  have nb: "unat (message_len ch) \<le> length b" using assms(10) n by simp
  have "device_read s filp buf count =
     Ret (sint (message_len ch),
          take (unat (message_len ch)) (message ch) @ drop (unat (message_len ch)) buf, s)"
    by (rule device_read_success[OF assms(1,2) ne le ln lb])
  with assms(4) have b': "buf' = take (nat r) (message ch) @ drop (nat r) buf"
    by (simp only: n) simp
  have t: "take (nat r) buf' = take (nat r) (message ch)"
    unfolding b' using ln n by simp
  have "device_read s filp b c =
     Ret (sint (message_len ch),
          take (unat (message_len ch)) (message ch) @ drop (unat (message_len ch)) b, s)"
    by (rule device_read_success[OF assms(1,2) ne assms(9) ln nb])
  then have again: "device_read s filp b c
      = Ret (r, take (nat r) (message ch) @ drop (nat r) b, s)"
    by (simp only: n r[symmetric])
  have m: "(\<forall>(b, c) \<in> set rs. message_len ch \<le> c \<and> nat r \<le> length b) \<longrightarrow>
         read_many s filp rs =
           Ret (map (\<lambda>(b, c). (r, take (nat r) (message ch) @ drop (nat r) b)) rs, s)"
    using read_many_same[OF assms(1,2) ne ln, of rs] by (simp only: n r[symmetric]) simp
  let ?ch = "ch\<lparr>message := wbuf @ replicate (128 - length wbuf) 0\<rparr>"
  let ?s = "s\<lparr>heap := (heap s)(a \<mapsto> Channel ?ch)\<rparr>"
  have w: "device_write s filp wbuf wcount = Ret (- 1, ?s)"
    by (rule device_write_copy_fault[OF assms(1,2,6,7,8)])
  have h: "heap ?s a = Some (Channel ?ch)" by simp
  have wl: "length wbuf < 128" using assms(8) unat_small[OF assms(7)] by simp
  have l128: "unat (message_len ch) \<le> 128" using assms(3) by (rule unat_small)
  have ln': "unat (message_len ?ch) \<le> length (message ?ch)" using wl l128 by simp
  have ne': "message_len ?ch \<noteq> 0" using ne by simp
  have le': "message_len ?ch \<le> c" using assms(9) by simp
  have nb': "unat (message_len ?ch) \<le> length b" using nb by simp
  have "device_read ?s filp b c =
     Ret (sint (message_len ?ch),
          take (unat (message_len ?ch)) (message ?ch) @ drop (unat (message_len ?ch)) b, ?s)"
    by (rule device_read_success[OF assms(1) h ne' le' ln' nb'])
  then have after: "device_read ?s filp b c
      = Ret (r, take (nat r) (wbuf @ replicate (128 - length wbuf) 0) @ drop (nat r) b, ?s)"
    using n r by simp
  show ?thesis using s t m again w after by blast
qed

text \<open>
  C9 at work: the channel holds \<open>hi\<close>. A read returns \<open>hi\<close>, and so do four more; a
  write of 2 bytes from an unreadable buffer returns \<open>-1\<close>; the next read returns 2 and
  two zero bytes.
\<close>

theorem read_then_failed_write_witness:
  "device_read k_msg f_sel (replicate 128 0xff) 128
       = Ret (2, [0x68, 0x69] @ replicate 126 0xff, k_msg)
   \<and> read_many k_msg f_sel [(replicate 128 1, 128), (replicate 2 7, 2), (replicate 3 9, 64)]
       = Ret ([(2, [0x68, 0x69] @ replicate 126 1), (2, [0x68, 0x69]),
               (2, [0x68, 0x69] @ replicate 1 9)], k_msg)
   \<and> device_read k_msg f_sel (replicate 128 1) 64 = Ret (2, [0x68, 0x69] @ replicate 126 1, k_msg)
   \<and> device_write k_msg f_sel [] 2 = Ret (- 1, k_torn)
   \<and> device_read k_torn f_sel (replicate 128 1) 64 = Ret (2, replicate 2 0 @ replicate 126 1, k_torn)"
proof -
  let ?ch = "chan_new\<lparr>message := [0x68, 0x69] @ replicate 126 0, message_len := 2\<rparr>"
  have b: "private_data f_sel = Some 2" by (simp add: f_sel_def)
  have h: "heap k_msg 2 = Some (Channel ?ch)" by (simp add: k_msg_def)
  have l: "message_len ?ch \<le> 128" by simp
  have r: "device_read k_msg f_sel (replicate 128 0xff) 128
       = Ret (2, [0x68, 0x69] @ replicate 126 0xff, k_msg)"
    by (simp add: device_read_def copy_to_user_def chan_new_def f_sel_def k_msg_def)
  have w: "(2 :: 64 word) \<noteq> 0" "(2 :: 64 word) \<le> 128"
    "length ([] :: byte list) < unat (2 :: 64 word)" by simp_all
  have c: "message_len ?ch \<le> 64" "nat 2 \<le> length (replicate 128 (1 :: byte))" by simp_all
  have wt: "device_write k_msg f_sel [] 2 = Ret (- 1, k_torn)"
    by (simp add: device_write_def copy_from_user_def memset_message_def chan_new_def
        f_sel_def k_msg_def k_torn_def replicate_add[symmetric])
  have le: "(2 :: 64 word) \<le> 128" "(2 :: 64 word) \<le> 2" "(2 :: 64 word) \<le> 64" by simp_all
  have rm: "read_many k_msg f_sel [(replicate 128 1, 128), (replicate 2 7, 2), (replicate 3 9, 64)]
       = Ret ([(2, [0x68, 0x69] @ replicate 126 1), (2, [0x68, 0x69]),
               (2, [0x68, 0x69] @ replicate 1 9)], k_msg)"
    using read_then_failed_write[OF b h l r _ w c,
        of "[(replicate 128 1, 128), (replicate 2 7, 2), (replicate 3 9, 64)]"] le
    by simp
  from read_then_failed_write[OF b h l r _ w c, of "[]"]
  obtain s'' where a: "device_read k_msg f_sel (replicate 128 1) 64
        = Ret (2, [0x68, 0x69] @ replicate 126 1, k_msg)"
    and w': "device_write k_msg f_sel [] 2 = Ret (- 1, s'')"
    and r': "device_read s'' f_sel (replicate 128 1) 64
        = Ret (2, replicate 2 0 @ replicate 126 1, s'')"
    by auto
  from w' wt have "s'' = k_torn" by simp
  with r rm a wt r' show ?thesis by simp
qed

text \<open>
  C10. After a write that succeeded, of \<open>n\<close> bytes, the channel's message array has 128
  bytes: the \<open>n\<close> bytes written at the indices below \<open>n\<close> and zero at every index from
  \<open>n\<close> to 127; \<open>n\<close> is between 1 and 128 and is the new message length.
\<close>

theorem write_zero_padded:
  assumes "private_data filp = Some a" and "heap s a = Some (Channel ch)"
    and "device_write s filp buf count = Ret (r, s')" and "0 \<le> r"
  shows "\<exists>ch'. heap s' a = Some (Channel ch') \<and> length (message ch') = 128
    \<and> message_len ch' = count \<and> 1 \<le> unat count \<and> unat count \<le> 128 \<and> r = int (unat count)
    \<and> (\<forall>i < unat count. message ch' ! i = buf ! i)
    \<and> (\<forall>i. unat count \<le> i \<and> i < 128 \<longrightarrow> message ch' ! i = 0)"
proof -
  from device_write_nonneg[OF assms]
  have c0: "count \<noteq> 0" and c128: "count \<le> 128" and lb: "unat count \<le> length buf"
    and r: "r = int (unat count)"
    and s': "s' = s\<lparr>heap := (heap s)(a \<mapsto> Channel (ch\<lparr>message :=
            take (unat count) buf @ replicate (128 - unat count) 0, message_len := count\<rparr>))\<rparr>"
    by simp_all
  define n where "n = unat count"
  define msg where "msg = take n buf @ replicate (128 - n) 0"
  have n128: "n \<le> 128" unfolding n_def using c128 by (rule unat_small)
  have n1: "1 \<le> n" unfolding n_def using c0 unat_gt_0[of count] by simp
  have nb: "n \<le> length buf" unfolding n_def by (rule lb)
  have len: "length msg = 128" unfolding msg_def using nb n128 by simp
  have front: "\<forall>i < n. msg ! i = buf ! i"
    unfolding msg_def using nb by (simp add: nth_append)
  have rest: "\<forall>i. n \<le> i \<and> i < 128 \<longrightarrow> msg ! i = 0"
    unfolding msg_def using nb by (auto simp: nth_append)
  have h: "heap s' a = Some (Channel (ch\<lparr>message := msg, message_len := count\<rparr>))"
    unfolding msg_def n_def using s' by simp
  show ?thesis
    using h len n1 n128 r front rest unfolding n_def by simp
qed

text \<open>
  C10 at work: after \<open>hi\<close> is written over the 128 bytes \<open>0x5a\<close> of the new channel, the
  array holds \<open>h\<close>, \<open>i\<close> and zeros up to its last byte.
\<close>

theorem write_zero_padded_witness:
  "private_data f_sel = Some 2 \<and> heap k_sel 2 = Some (Channel chan_new)
   \<and> device_write k_sel f_sel [0x68, 0x69] 2 = Ret (2, k_msg)
   \<and> (\<exists>ch'. heap k_msg 2 = Some (Channel ch') \<and> length (message ch') = 128
        \<and> message_len ch' = 2 \<and> message ch' ! 0 = 0x68 \<and> message ch' ! 1 = 0x69
        \<and> message ch' ! 2 = 0 \<and> message ch' ! 127 = 0)"
proof -
  have b: "private_data f_sel = Some 2" by (simp add: f_sel_def)
  have h: "heap k_sel 2 = Some (Channel chan_new)" by (simp add: k_sel_def)
  from write_zero_padded[OF b h device_write_sel]
  obtain ch' where c: "heap k_msg 2 = Some (Channel ch')" "length (message ch') = 128"
    "message_len ch' = 2"
    and f: "\<forall>i < unat (2 :: 64 word). message ch' ! i = [0x68, 0x69] ! i"
    and z: "\<forall>i. unat (2 :: 64 word) \<le> i \<and> i < 128 \<longrightarrow> message ch' ! i = 0"
    by auto
  from f have "message ch' ! 0 = 0x68" "message ch' ! 1 = 0x69" by simp_all
  moreover from z have "message ch' ! 2 = 0" "message ch' ! 127 = 0" by simp_all
  ultimately show ?thesis using b h c device_write_sel by blast
qed

end
